theory Spec2Isabelle
  imports Main
begin

section \<open>The model-view dialog coordinator (extHostModelViewDialog.ts)\<close>

text \<open>
  The coordinator keeps three identity-keyed registries from model objects (dialogs, tabs,
  buttons) to numeric handles, a dispatch table from handles to click callbacks, and sends
  one-way messages to the rendering host. The embedding below follows the TypeScript
  source function by function.

  \<^item> JavaScript objects have identity and mutable fields. A value of an object type is a
    reference (\<open>ref\<close>): \<open>undefined\<close>, \<open>null\<close>, or an object \<open>Obj n\<close>, whose
    fields are in a store. \<open>new\<close> returns \<open>Obj n\<close> for the next unused \<open>n\<close>, so a
    new object is never \<open>undefined\<close> or \<open>null\<close> and never an object made before.
    Reading a property through a reference that has no object in the store, as through
    \<open>undefined\<close> and \<open>null\<close>, raises a \<open>TypeError\<close>. The registries are
    JavaScript Maps: \<open>undefined\<close> and \<open>null\<close> are keys like any other.
  \<^item> Exceptions are values: a fallible function returns \<open>(error + 'a) \<times> state\<close>. The
    state is returned on the error path too, because a JavaScript exception undoes nothing
    that was done before it was thrown.
  \<^item> The handle counter is a JavaScript number. Every natural number below \<open>2 ^ 53\<close> is
    represented exactly, and the registries, which are never emptied, keep at least every
    second handle that was issued, so no process reaches that bound: the counter is a
    \<open>nat\<close>.
  \<^item> Dialogs, tabs and buttons are objects of the three classes of the file
    (DialogImpl, TabImpl, ButtonImpl), used with the one coordinator of the process.
\<close>

subsection \<open>Data model\<close>

text \<open>
  A value of an object type: \<open>undefined\<close>, \<open>null\<close>, or the object number \<open>n\<close>.
\<close>

datatype ref = Undefined | Null | Obj nat
type_synonym handle = nat

text \<open>
  \<open>TypeError\<close> is what the JavaScript runtime raises when a property of
  \<open>undefined\<close> is read or \<open>undefined\<close> is called. The source raises nothing else.
  \<open>UnknownHandleError\<close> is the error that the specification names for a click on a handle
  without a dispatch entry; no function below produces it.
\<close>

datatype error = TypeError | UnknownHandleError

text \<open>class ButtonImpl: \<open>_label\<close> is \<open>undefined\<close> (\<open>None\<close>) until it is assigned.\<close>

record button =
  label :: "string option"
  enabled :: bool

text \<open>class TabImpl: \<open>content\<close> is \<open>undefined\<close> until the caller assigns it.\<close>

record tab =
  tab_title :: string
  tab_content :: "string option"

text \<open>
  class DialogImpl: \<open>content\<close> is \<open>string | DialogTab[]\<close> and starts undefined;
  \<open>customButtons\<close> starts undefined.
\<close>

datatype content = NoContent | Text string | Tabs "ref list"

record dialog =
  title :: string
  content :: content
  okButton :: ref
  cancelButton :: ref
  customButtons :: "ref list option"

text \<open>
  The callback that \<open>ButtonImpl.getOnClickCallback\<close> returns is a closure over its
  button that fires the button's click emitter.
\<close>

datatype callback = FireOnClick ref

text \<open>The payloads of the outbound messages, as the source assembles them.\<close>

datatype wire_content = WNoContent | WText string | WTabs "handle list"

record dialog_details =
  dd_title :: string
  dd_okButton :: handle
  dd_cancelButton :: handle
  dd_content :: wire_content
  dd_customButtons :: "handle list option"

record tab_details =
  td_title :: string
  td_content :: "string option"

record button_details =
  bd_label :: "string option"
  bd_enabled :: bool

datatype msg =
    MOpen handle
  | MClose handle
  | SetDialogDetails handle dialog_details
  | SetTabDetails handle tab_details
  | SetButtonDetails handle button_details

text \<open>
  The state of the process: the static counter \<open>_currentHandle\<close>, the three registries
  and the dispatch table of class ExtHostModelViewDialog, the object store, the messages
  sent through \<open>_proxy\<close> so far (oldest first), and the callbacks invoked so far.
\<close>

record state =
  currentHandle :: handle
  dialogHandles :: "ref \<rightharpoonup> handle"
  tabHandles :: "ref \<rightharpoonup> handle"
  buttonHandles :: "ref \<rightharpoonup> handle"
  onClickCallbacks :: "handle \<rightharpoonup> callback"
  nextRef :: nat
  dialogs :: "ref \<rightharpoonup> dialog"
  tabs :: "ref \<rightharpoonup> tab"
  buttons :: "ref \<rightharpoonup> button"
  outbox :: "msg list"
  invocations :: "callback list"

definition initial :: state where
  "initial = \<lparr> currentHandle = 0, dialogHandles = Map.empty, tabHandles = Map.empty,
     buttonHandles = Map.empty, onClickCallbacks = Map.empty, nextRef = 0,
     dialogs = Map.empty, tabs = Map.empty, buttons = Map.empty,
     outbox = [], invocations = [] \<rparr>"

subsection \<open>Collaborators outside the source file\<close>

text \<open>
  Modelled from the spec: the outbound channel behind \<open>_proxy\<close>
  (MainThreadModelViewDialogShape is declared in sqlExtHost.protocol, which is not among
  the sources). Directives are one-way and fire-and-forget: a send appends the message to
  the channel and returns.
\<close>

definition send :: "msg \<Rightarrow> state \<Rightarrow> state" where
  "send m s = s\<lparr>outbox := outbox s @ [m]\<rparr>"

text \<open>
  Modelled from the spec: the text-resource provider \<open>nls.localize\<close> (vs/nls is not
  among the sources) supplies the default label it is given.
\<close>

definition localize :: "string \<Rightarrow> string \<Rightarrow> string" where
  "localize key message = message"

subsection \<open>Handle allocation and the registries\<close>

text \<open>\<open>getNewHandle\<close>: return the counter, then add one to it.\<close>

definition getNewHandle :: "state \<Rightarrow> handle \<times> state" where
  "getNewHandle s = (currentHandle s, s\<lparr>currentHandle := currentHandle s + 1\<rparr>)"

definition getDialogHandle :: "state \<Rightarrow> ref \<Rightarrow> handle \<times> state" where
  "getDialogHandle s d =
     (case dialogHandles s d of
        Some h \<Rightarrow> (h, s)
      | None \<Rightarrow>
          (let (h, s1) = getNewHandle s
           in (h, s1\<lparr>dialogHandles := (dialogHandles s1)(d \<mapsto> h)\<rparr>)))"

definition getTabHandle :: "state \<Rightarrow> ref \<Rightarrow> handle \<times> state" where
  "getTabHandle s t =
     (case tabHandles s t of
        Some h \<Rightarrow> (h, s)
      | None \<Rightarrow>
          (let (h, s1) = getNewHandle s
           in (h, s1\<lparr>tabHandles := (tabHandles s1)(t \<mapsto> h)\<rparr>)))"

definition getButtonHandle :: "state \<Rightarrow> ref \<Rightarrow> handle \<times> state" where
  "getButtonHandle s b =
     (case buttonHandles s b of
        Some h \<Rightarrow> (h, s)
      | None \<Rightarrow>
          (let (h, s1) = getNewHandle s
           in (h, s1\<lparr>buttonHandles := (buttonHandles s1)(b \<mapsto> h)\<rparr>)))"

text \<open>\<open>n\<close> calls of \<open>getNewHandle\<close> one after the other: the values returned, in call order.\<close>

fun getNewHandle_calls :: "nat \<Rightarrow> state \<Rightarrow> handle list \<times> state" where
  "getNewHandle_calls 0 s = ([], s)"
| "getNewHandle_calls (Suc n) s =
     (let (h, s1) = getNewHandle s; (hs, s2) = getNewHandle_calls n s1 in (h # hs, s2))"

subsection \<open>Sequencing with exceptions\<close>

text \<open>
  A statement that throws ends the enclosing function: the rest of the body does not run,
  and the state reached so far stays.
\<close>

definition andThen ::
  "(error + 'a) \<times> state \<Rightarrow> ('a \<Rightarrow> state \<Rightarrow> (error + 'b) \<times> state) \<Rightarrow> (error + 'b) \<times> state" where
  "andThen r f = (case r of (Inl e, s) \<Rightarrow> (Inl e, s) | (Inr x, s) \<Rightarrow> f x s)"

subsection \<open>Buttons\<close>

text \<open>
  \<open>new ButtonImpl(host)\<close>: a new object, different from every value there was before,
  with \<open>_enabled = true\<close> and no label yet.
\<close>

definition new_ButtonImpl :: "state \<Rightarrow> ref \<times> state" where
  "new_ButtonImpl s =
     (Obj (nextRef s),
      s\<lparr>nextRef := nextRef s + 1,
        buttons := (buttons s)(Obj (nextRef s) \<mapsto> \<lparr>label = None, enabled = True\<rparr>)\<rparr>)"

text \<open>
  \<open>updateButton\<close>: resolve the handle first, then read \<open>button.label\<close> and
  \<open>button.enabled\<close>, then send.
\<close>

definition updateButton :: "state \<Rightarrow> ref \<Rightarrow> (error + unit) \<times> state" where
  "updateButton s b =
     (let (h, s1) = getButtonHandle s b
      in case buttons s1 b of
           None \<Rightarrow> (Inl TypeError, s1)
         | Some btn \<Rightarrow>
             (Inr (), send (SetButtonDetails h \<lparr>bd_label = label btn, bd_enabled = enabled btn\<rparr>) s1))"

text \<open>The setters of ButtonImpl: store the field, then call \<open>updateButton(this)\<close>.\<close>

definition set_label :: "state \<Rightarrow> ref \<Rightarrow> string \<Rightarrow> (error + unit) \<times> state" where
  "set_label s b l =
     (case buttons s b of
        None \<Rightarrow> (Inl TypeError, s)
      | Some btn \<Rightarrow> updateButton (s\<lparr>buttons := (buttons s)(b \<mapsto> btn\<lparr>label := Some l\<rparr>)\<rparr>) b)"

definition set_enabled :: "state \<Rightarrow> ref \<Rightarrow> bool \<Rightarrow> (error + unit) \<times> state" where
  "set_enabled s b e =
     (case buttons s b of
        None \<Rightarrow> (Inl TypeError, s)
      | Some btn \<Rightarrow> updateButton (s\<lparr>buttons := (buttons s)(b \<mapsto> btn\<lparr>enabled := e\<rparr>)\<rparr>) b)"

definition getOnClickCallback :: "ref \<Rightarrow> callback" where
  "getOnClickCallback b = FireOnClick b"

definition registerOnClickCallback :: "state \<Rightarrow> ref \<Rightarrow> callback \<Rightarrow> state" where
  "registerOnClickCallback s b cb =
     (let (h, s1) = getButtonHandle s b
      in s1\<lparr>onClickCallbacks := (onClickCallbacks s1)(h \<mapsto> cb)\<rparr>)"

text \<open>
  \<open>$onButtonClick\<close>: \<open>this._onClickCallbacks.get(handle)()\<close>. When the table has no
  entry the lookup gives \<open>undefined\<close>, and calling it raises a TypeError.
\<close>

definition onButtonClick :: "state \<Rightarrow> handle \<Rightarrow> (error + unit) \<times> state" where
  "onButtonClick s h =
     (case onClickCallbacks s h of
        None \<Rightarrow> (Inl TypeError, s)
      | Some cb \<Rightarrow> (Inr (), s\<lparr>invocations := invocations s @ [cb]\<rparr>))"

text \<open>
  \<open>createButton\<close>: the assignment \<open>button.label = label\<close> runs the setter, and so
  \<open>updateButton\<close>, before the function takes a handle of its own and stores it.
\<close>

definition createButton :: "state \<Rightarrow> string \<Rightarrow> (error + ref) \<times> state" where
  "createButton s l =
     (let (b, s1) = new_ButtonImpl s
      in andThen (set_label s1 b l) (\<lambda>_ s2.
           let (h, s3) = getNewHandle s2;
               s4 = s3\<lparr>buttonHandles := (buttonHandles s3)(b \<mapsto> h)\<rparr>;
               s5 = registerOnClickCallback s4 b (getOnClickCallback b)
           in (Inr b, s5)))"

subsection \<open>Tabs\<close>

definition updateTabContent :: "state \<Rightarrow> ref \<Rightarrow> (error + unit) \<times> state" where
  "updateTabContent s t =
     (let (h, s1) = getTabHandle s t
      in case tabs s1 t of
           None \<Rightarrow> (Inl TypeError, s1)
         | Some tb \<Rightarrow>
             (Inr (), send (SetTabDetails h \<lparr>td_title = tab_title tb, td_content = tab_content tb\<rparr>) s1))"

text \<open>
  \<open>tab.updateContent()\<close>: the method is looked up on the tab object, so an undefined
  tab fails before any handle is resolved.
\<close>

definition TabImpl_updateContent :: "state \<Rightarrow> ref \<Rightarrow> (error + unit) \<times> state" where
  "TabImpl_updateContent s t =
     (case tabs s t of None \<Rightarrow> (Inl TypeError, s) | Some _ \<Rightarrow> updateTabContent s t)"

text \<open>\<open>createTab\<close>: a new TabImpl with its title, and a new handle stored for it.\<close>

definition createTab :: "state \<Rightarrow> string \<Rightarrow> ref \<times> state" where
  "createTab s ttl =
     (let t = Obj (nextRef s);
          s1 = s\<lparr>nextRef := nextRef s + 1,
                 tabs := (tabs s)(t \<mapsto> \<lparr>tab_title = ttl, tab_content = None\<rparr>)\<rparr>;
          (h, s2) = getNewHandle s1
      in (t, s2\<lparr>tabHandles := (tabHandles s2)(t \<mapsto> h)\<rparr>))"

subsection \<open>Dialogs\<close>

text \<open>\<open>tabs.forEach(tab => tab.updateContent())\<close>\<close>

fun forEach_updateContent :: "state \<Rightarrow> ref list \<Rightarrow> (error + unit) \<times> state" where
  "forEach_updateContent s [] = (Inr (), s)"
| "forEach_updateContent s (t # ts) =
     andThen (TabImpl_updateContent s t) (\<lambda>_ s1. forEach_updateContent s1 ts)"

text \<open>\<open>dialog.customButtons.forEach(button => this.updateButton(button))\<close>\<close>

fun forEach_updateButton :: "state \<Rightarrow> ref list \<Rightarrow> (error + unit) \<times> state" where
  "forEach_updateButton s [] = (Inr (), s)"
| "forEach_updateButton s (b # bs) =
     andThen (updateButton s b) (\<lambda>_ s1. forEach_updateButton s1 bs)"

text \<open>\<open>dialog.content.map(tab => this.getTabHandle(tab))\<close>\<close>

fun map_getTabHandle :: "state \<Rightarrow> ref list \<Rightarrow> handle list \<times> state" where
  "map_getTabHandle s [] = ([], s)"
| "map_getTabHandle s (t # ts) =
     (let (h, s1) = getTabHandle s t; (hs, s2) = map_getTabHandle s1 ts in (h # hs, s2))"

text \<open>\<open>dialog.customButtons.map(button => this.getButtonHandle(button))\<close>\<close>

fun map_getButtonHandle :: "state \<Rightarrow> ref list \<Rightarrow> handle list \<times> state" where
  "map_getButtonHandle s [] = ([], s)"
| "map_getButtonHandle s (b # bs) =
     (let (h, s1) = getButtonHandle s b; (hs, s2) = map_getButtonHandle s1 bs in (h # hs, s2))"

text \<open>
  The two guarded loops of \<open>updateDialogContent\<close>. An array is truthy even when empty;
  \<open>undefined\<close> and every string fail the test \<open>tabs && typeof tabs !== 'string'\<close>.
\<close>

definition sync_tabs :: "state \<Rightarrow> content \<Rightarrow> (error + unit) \<times> state" where
  "sync_tabs s c = (case c of Tabs ts \<Rightarrow> forEach_updateContent s ts | _ \<Rightarrow> (Inr (), s))"

definition sync_customButtons :: "state \<Rightarrow> ref list option \<Rightarrow> (error + unit) \<times> state" where
  "sync_customButtons s cbs =
     (case cbs of Some bs \<Rightarrow> forEach_updateButton s bs | None \<Rightarrow> (Inr (), s))"

text \<open>The \<open>content\<close> and \<open>customButtons\<close> entries of the details object.\<close>

definition content_details :: "state \<Rightarrow> content \<Rightarrow> wire_content \<times> state" where
  "content_details s c =
     (case c of
        Tabs ts \<Rightarrow> (let (hs, s1) = map_getTabHandle s ts in (WTabs hs, s1))
      | Text x \<Rightarrow> (WText x, s)
      | NoContent \<Rightarrow> (WNoContent, s))"

definition customButtons_details :: "state \<Rightarrow> ref list option \<Rightarrow> handle list option \<times> state" where
  "customButtons_details s cbs =
     (case cbs of
        Some bs \<Rightarrow> (let (hs, s1) = map_getButtonHandle s bs in (Some hs, s1))
      | None \<Rightarrow> (None, s))"

text \<open>
  The children of a dialog are synchronized in this order: the tabs, the custom buttons,
  the ok button, the cancel button.
\<close>

definition sync_children :: "state \<Rightarrow> dialog \<Rightarrow> (error + unit) \<times> state" where
  "sync_children s dlg =
     andThen (sync_tabs s (content dlg)) (\<lambda>_ s2.
     andThen (sync_customButtons s2 (customButtons dlg)) (\<lambda>_ s3.
     andThen (updateButton s3 (okButton dlg)) (\<lambda>_ s4.
     updateButton s4 (cancelButton dlg))))"

text \<open>
  The details object of \<open>$setDialogDetails\<close>; its fields are evaluated in the order
  in which the object literal lists them.
\<close>

definition dialog_details_of :: "state \<Rightarrow> dialog \<Rightarrow> dialog_details \<times> state" where
  "dialog_details_of s dlg =
     (let (hok, s6) = getButtonHandle s (okButton dlg);
          (hcancel, s7) = getButtonHandle s6 (cancelButton dlg);
          (wc, s8) = content_details s7 (content dlg);
          (wbs, s9) = customButtons_details s8 (customButtons dlg)
      in (\<lparr>dd_title = title dlg, dd_okButton = hok, dd_cancelButton = hcancel,
           dd_content = wc, dd_customButtons = wbs\<rparr>, s9))"

text \<open>
  \<open>updateDialogContent\<close>: the dialog's handle, then the children, and last the
  dialog's own details.
\<close>

definition updateDialogContent :: "state \<Rightarrow> ref \<Rightarrow> (error + unit) \<times> state" where
  "updateDialogContent s d =
     (let (h, s1) = getDialogHandle s d
      in case dialogs s1 d of
           None \<Rightarrow> (Inl TypeError, s1)
         | Some dlg \<Rightarrow>
             andThen (sync_children s1 dlg) (\<lambda>_ s5.
               let (dd, s9) = dialog_details_of s5 dlg
               in (Inr (), send (SetDialogDetails h dd) s9)))"

definition open_dialog :: "state \<Rightarrow> ref \<Rightarrow> (error + unit) \<times> state" where
  "open_dialog s d =
     (let (h, s1) = getDialogHandle s d
      in andThen (updateDialogContent s1 d) (\<lambda>_ s2. (Inr (), send (MOpen h) s2)))"

definition close_dialog :: "state \<Rightarrow> ref \<Rightarrow> state" where
  "close_dialog s d = (let (h, s1) = getDialogHandle s d in send (MClose h) s1)"

text \<open>
  \<open>createDialog\<close>: \<open>new DialogImpl(this)\<close> takes the dialog's identity, its
  constructor creates the two buttons, then the title is stored and a new handle is
  stored for the dialog.
\<close>

definition createDialog :: "state \<Rightarrow> string \<Rightarrow> (error + ref) \<times> state" where
  "createDialog s ttl =
     (let d = Obj (nextRef s);
          s0 = s\<lparr>nextRef := nextRef s + 1\<rparr>
      in andThen (createButton s0 (localize ''dialogOkLabel'' ''Done'')) (\<lambda>ok s1.
         andThen (createButton s1 (localize ''dialogCancelLabel'' ''Cancel'')) (\<lambda>cancel s2.
           let s3 = s2\<lparr>dialogs := (dialogs s2)(d \<mapsto>
                          \<lparr>title = ttl, content = NoContent, okButton = ok,
                           cancelButton = cancel, customButtons = None\<rparr>)\<rparr>;
               (h, s4) = getNewHandle s3
           in (Inr d, s4\<lparr>dialogHandles := (dialogHandles s4)(d \<mapsto> h)\<rparr>))))"

subsection \<open>Assignments to plain fields\<close>

text \<open>
  The fields of DialogImpl and TabImpl are public and have no setters: an assignment
  (\<open>dialog.content = [tab]\<close>, \<open>tab.content = text\<close>) changes the object and sends
  nothing. \<open>write_dialog\<close> stores the fields of an existing dialog after any number of
  such assignments.
\<close>

definition write_dialog :: "state \<Rightarrow> ref \<Rightarrow> dialog \<Rightarrow> (error + unit) \<times> state" where
  "write_dialog s d dlg =
     (case dialogs s d of
        None \<Rightarrow> (Inl TypeError, s)
      | Some _ \<Rightarrow> (Inr (), s\<lparr>dialogs := (dialogs s)(d \<mapsto> dlg)\<rparr>))"

definition write_tab :: "state \<Rightarrow> ref \<Rightarrow> tab \<Rightarrow> (error + unit) \<times> state" where
  "write_tab s t tb =
     (case tabs s t of
        None \<Rightarrow> (Inl TypeError, s)
      | Some _ \<Rightarrow> (Inr (), s\<lparr>tabs := (tabs s)(t \<mapsto> tb)\<rparr>))"

subsection \<open>Runs of the coordinator\<close>

text \<open>
  Everything a caller or the host can do to the coordinator: the factory operations, the
  button setters, assignments to plain fields, the public methods, and an inbound click.
  A run is a list of such operations; an exception ends the operation that raised it, and
  the run goes on from the state it left. What is proved of every run holds of the runs
  that a program can make, which name no object before \<open>new\<close> has returned it
  (\<open>well_scoped\<close> below).
\<close>

datatype op =
    CreateDialog string
  | CreateTab string
  | CreateButton string
  | SetLabel ref string
  | SetEnabled ref bool
  | WriteDialog ref dialog
  | WriteTab ref tab
  | Open ref
  | Close ref
  | UpdateDialogContent ref
  | UpdateTabContent ref
  | UpdateButton ref
  | RegisterOnClickCallback ref callback
  | OnButtonClick handle

fun step :: "op \<Rightarrow> state \<Rightarrow> state" where
  "step (CreateDialog ttl) s = snd (createDialog s ttl)"
| "step (CreateTab ttl) s = snd (createTab s ttl)"
| "step (CreateButton l) s = snd (createButton s l)"
| "step (SetLabel b l) s = snd (set_label s b l)"
| "step (SetEnabled b e) s = snd (set_enabled s b e)"
| "step (WriteDialog d dlg) s = snd (write_dialog s d dlg)"
| "step (WriteTab t tb) s = snd (write_tab s t tb)"
| "step (Open d) s = snd (open_dialog s d)"
| "step (Close d) s = close_dialog s d"
| "step (UpdateDialogContent d) s = snd (updateDialogContent s d)"
| "step (UpdateTabContent t) s = snd (updateTabContent s t)"
| "step (UpdateButton b) s = snd (updateButton s b)"
| "step (RegisterOnClickCallback b cb) s = registerOnClickCallback s b cb"
| "step (OnButtonClick h) s = snd (onButtonClick s h)"

definition exec :: "op list \<Rightarrow> state \<Rightarrow> state" where
  "exec ops s = fold step ops s"

subsection \<open>The three registries as one\<close>

datatype obj = Dialog ref | Tab ref | Button ref

fun ref_of :: "obj \<Rightarrow> ref" where
  "ref_of (Dialog d) = d"
| "ref_of (Tab t) = t"
| "ref_of (Button b) = b"

definition registry :: "state \<Rightarrow> obj \<Rightarrow> handle option" where
  "registry s x =
     (case x of Dialog d \<Rightarrow> dialogHandles s d | Tab t \<Rightarrow> tabHandles s t
      | Button b \<Rightarrow> buttonHandles s b)"

definition getOrAssign :: "state \<Rightarrow> obj \<Rightarrow> handle \<times> state" where
  "getOrAssign s x =
     (case x of Dialog d \<Rightarrow> getDialogHandle s d | Tab t \<Rightarrow> getTabHandle s t
      | Button b \<Rightarrow> getButtonHandle s b)"

subsection \<open>Vocabulary of the statements\<close>

text \<open>The children of a dialog that \<open>updateDialogContent\<close> walks through.\<close>

definition tabs_of :: "content \<Rightarrow> ref list" where
  "tabs_of c = (case c of Tabs ts \<Rightarrow> ts | _ \<Rightarrow> [])"

definition custom_of :: "ref list option \<Rightarrow> ref list" where
  "custom_of cbs = (case cbs of Some bs \<Rightarrow> bs | None \<Rightarrow> [])"

text \<open>
  The messages that describe a tab, a button and a dialog in a state: the handle is the
  one the registry of that state holds, the payload is read from the object store.
\<close>

definition tab_message :: "state \<Rightarrow> ref \<Rightarrow> msg" where
  "tab_message s t =
     SetTabDetails (the (tabHandles s t))
       \<lparr>td_title = tab_title (the (tabs s t)), td_content = tab_content (the (tabs s t))\<rparr>"

definition button_message :: "state \<Rightarrow> ref \<Rightarrow> msg" where
  "button_message s b =
     SetButtonDetails (the (buttonHandles s b))
       \<lparr>bd_label = label (the (buttons s b)), bd_enabled = enabled (the (buttons s b))\<rparr>"

definition dialog_message :: "state \<Rightarrow> ref \<Rightarrow> dialog \<Rightarrow> msg" where
  "dialog_message s d dlg =
     SetDialogDetails (the (dialogHandles s d))
       \<lparr>dd_title = title dlg,
        dd_okButton = the (buttonHandles s (okButton dlg)),
        dd_cancelButton = the (buttonHandles s (cancelButton dlg)),
        dd_content =
          (case content dlg of
             Tabs ts \<Rightarrow> WTabs (map (\<lambda>t. the (tabHandles s t)) ts)
           | Text x \<Rightarrow> WText x
           | NoContent \<Rightarrow> WNoContent),
        dd_customButtons = map_option (map (\<lambda>b. the (buttonHandles s b))) (customButtons dlg)\<rparr>"

definition children :: "dialog \<Rightarrow> ref list" where
  "children dlg =
     okButton dlg # cancelButton dlg # tabs_of (content dlg) @ custom_of (customButtons dlg)"

text \<open>
  The values that a caller can hold in a state: \<open>undefined\<close>, \<open>null\<close>, and the
  objects that \<open>new\<close> has returned so far.
\<close>

fun nameable :: "state \<Rightarrow> ref \<Rightarrow> bool" where
  "nameable s (Obj n) = (n < nextRef s)"
| "nameable s Undefined = True"
| "nameable s Null = True"

text \<open>
  An operation is scoped in a state when every reference in it is one that a caller can
  hold there; a run is well scoped when each of its operations is scoped in the state in
  which it starts. These are the runs that a JavaScript program can make.
\<close>

fun scoped :: "state \<Rightarrow> op \<Rightarrow> bool" where
  "scoped s (CreateDialog ttl) = True"
| "scoped s (CreateTab ttl) = True"
| "scoped s (CreateButton l) = True"
| "scoped s (SetLabel b l) = nameable s b"
| "scoped s (SetEnabled b e) = nameable s b"
| "scoped s (WriteDialog d dlg) = (nameable s d \<and> list_all (nameable s) (children dlg))"
| "scoped s (WriteTab t tb) = nameable s t"
| "scoped s (Open d) = nameable s d"
| "scoped s (Close d) = nameable s d"
| "scoped s (UpdateDialogContent d) = nameable s d"
| "scoped s (UpdateTabContent t) = nameable s t"
| "scoped s (UpdateButton b) = nameable s b"
| "scoped s (RegisterOnClickCallback b (FireOnClick r)) = (nameable s b \<and> nameable s r)"
| "scoped s (OnButtonClick h) = True"

fun well_scoped :: "state \<Rightarrow> op list \<Rightarrow> bool" where
  "well_scoped s [] = True"
| "well_scoped s (op # ops) = (scoped s op \<and> well_scoped (step op s) ops)"

text \<open>
  Some child of the dialog has no object in the store, as \<open>undefined\<close> and \<open>null\<close>
  have none, so that synchronizing it raises.
\<close>

definition child_missing :: "state \<Rightarrow> dialog \<Rightarrow> bool" where
  "child_missing s dlg \<longleftrightarrow>
     list_ex (\<lambda>t. tabs s t = None) (tabs_of (content dlg)) \<or>
     list_ex (\<lambda>b. buttons s b = None) (custom_of (customButtons dlg)) \<or>
     buttons s (okButton dlg) = None \<or> buttons s (cancelButton dlg) = None"

fun is_SetDialogDetails :: "msg \<Rightarrow> bool" where
  "is_SetDialogDetails (SetDialogDetails h dd) = True"
| "is_SetDialogDetails m = False"

text \<open>
  Every handle in a registry or in the dispatch table was taken from the counter, and no
  handle is in the registries twice.
\<close>

definition handles_inv :: "state \<Rightarrow> bool" where
  "handles_inv s \<longleftrightarrow>
     (\<forall>x h. registry s x = Some h \<longrightarrow> h < currentHandle s) \<and>
     (\<forall>x y h. registry s x = Some h \<longrightarrow> registry s y = Some h \<longrightarrow> x = y) \<and>
     (\<forall>k cb. onClickCallbacks s k = Some cb \<longrightarrow> k < currentHandle s)"

text \<open>
  Every key of a registry and every child of a dialog in the store is a value that a
  caller can hold: nothing refers to an object that \<open>new\<close> has yet to return.
\<close>

definition fresh_inv :: "state \<Rightarrow> bool" where
  "fresh_inv s \<longleftrightarrow>
     (\<forall>x h. registry s x = Some h \<longrightarrow> nameable s (ref_of x)) \<and>
     (\<forall>d dlg. dialogs s d = Some dlg \<longrightarrow> list_all (nameable s) (children dlg))"

text \<open>
  \<open>names R s s'\<close>: from \<open>s\<close> to \<open>s'\<close> no object is made, no dialog is written, and
  the registries gain keys among the references \<open>R\<close> only.
\<close>

definition names :: "ref set \<Rightarrow> state \<Rightarrow> state \<Rightarrow> bool" where
  "names R s s' \<longleftrightarrow>
     nextRef s' = nextRef s \<and> dialogs s' = dialogs s \<and>
     (\<forall>x h. registry s' x = Some h \<longrightarrow> registry s x \<noteq> None \<or> ref_of x \<in> R)"

text \<open>
  \<open>child_sync s s'\<close>: \<open>s'\<close> comes from \<open>s\<close> by resolving handles and sending tab and
  button details only. The objects, the dispatch table and the entries already in the
  registries are as they were, and a handle taken from the counter before \<open>s\<close> names in
  \<open>s'\<close> the object that it named in \<open>s\<close>.
\<close>

definition child_sync :: "state \<Rightarrow> state \<Rightarrow> bool" where
  "child_sync s s' \<longleftrightarrow>
     dialogs s' = dialogs s \<and> tabs s' = tabs s \<and> buttons s' = buttons s \<and>
     nextRef s' = nextRef s \<and> onClickCallbacks s' = onClickCallbacks s \<and>
     invocations s' = invocations s \<and>
     dialogHandles s \<subseteq>\<^sub>m dialogHandles s' \<and> tabHandles s \<subseteq>\<^sub>m tabHandles s' \<and>
     buttonHandles s \<subseteq>\<^sub>m buttonHandles s' \<and>
     currentHandle s \<le> currentHandle s' \<and>
     (\<forall>x h. h < currentHandle s \<longrightarrow> registry s' x = Some h \<longrightarrow> registry s x = Some h) \<and>
     (handles_inv s \<longrightarrow> handles_inv s') \<and>
     (\<exists>ms. outbox s' = outbox s @ ms \<and> \<not> list_ex is_SetDialogDetails ms)"

text \<open>
  \<open>evolves s s'\<close>: what every operation keeps. Objects are only ever added, an object
  that exists keeps existing, a value that a caller can hold keeps its registry entry,
  the counter does not go back, a handle taken from the counter before \<open>s\<close> is not given
  to another object, a dispatch entry stays, and a handle that has left the registries
  without a dispatch entry gets none.
\<close>

definition evolves :: "state \<Rightarrow> state \<Rightarrow> bool" where
  "evolves s s' \<longleftrightarrow>
     nextRef s \<le> nextRef s' \<and> currentHandle s \<le> currentHandle s' \<and>
     (\<forall>r h. nameable s r \<longrightarrow> dialogHandles s r = Some h \<longrightarrow> dialogHandles s' r = Some h) \<and>
     (\<forall>r h. nameable s r \<longrightarrow> tabHandles s r = Some h \<longrightarrow> tabHandles s' r = Some h) \<and>
     (\<forall>r h. nameable s r \<longrightarrow> buttonHandles s r = Some h \<longrightarrow> buttonHandles s' r = Some h) \<and>
     (\<forall>r. dialogs s r \<noteq> None \<longrightarrow> dialogs s' r \<noteq> None) \<and>
     (\<forall>r. tabs s r \<noteq> None \<longrightarrow> tabs s' r \<noteq> None) \<and>
     (\<forall>r. buttons s r \<noteq> None \<longrightarrow> buttons s' r \<noteq> None) \<and>
     (\<forall>x h. h < currentHandle s \<longrightarrow> registry s' x = Some h \<longrightarrow> registry s x = Some h) \<and>
     (\<forall>k. onClickCallbacks s k \<noteq> None \<longrightarrow> onClickCallbacks s' k \<noteq> None) \<and>
     (\<forall>k. k < currentHandle s \<longrightarrow> (\<forall>x. registry s x \<noteq> Some k) \<longrightarrow>
          onClickCallbacks s k = None \<longrightarrow> onClickCallbacks s' k = None) \<and>
     (handles_inv s \<longrightarrow> handles_inv s')"

text \<open>
  The scenario of the specification: a dialog titled Connect, a tab titled General with
  content form, and the tab made the dialog's content.
\<close>

definition scenario :: state where
  "scenario =
     exec [CreateDialog ''Connect'', CreateTab ''General'',
           WriteTab (Obj 3) \<lparr>tab_title = ''General'', tab_content = Some ''form''\<rparr>,
           WriteDialog (Obj 0)
             \<lparr>title = ''Connect'', content = Tabs [Obj 3], okButton = Obj 1,
              cancelButton = Obj 2, customButtons = None\<rparr>] initial"

section \<open>Verification\<close>

text \<open>The definitions that evaluating a concrete run unfolds.\<close>

lemmas scenario_defs = scenario_def exec_def initial_def createDialog_def createTab_def
  createButton_def new_ButtonImpl_def set_label_def updateButton_def getButtonHandle_def
  getNewHandle_def getDialogHandle_def getTabHandle_def send_def andThen_def localize_def
  registerOnClickCallback_def getOnClickCallback_def write_dialog_def write_tab_def Let_def

subsection \<open>The registry invariant\<close>

lemma handles_inv_initial: "handles_inv initial"
  by (simp add: handles_inv_def registry_def initial_def split: obj.splits)

lemma handles_inv_same:
  assumes "handles_inv s" "registry s' = registry s" "currentHandle s' = currentHandle s"
    "onClickCallbacks s' = onClickCallbacks s"
  shows "handles_inv s'"
  using assms by (simp add: handles_inv_def)

lemma handles_inv_assign:
  assumes inv: "handles_inv s"
    and reg: "registry s' = (registry s)(x \<mapsto> currentHandle s)"
    and cnt: "currentHandle s' = currentHandle s + 1"
    and cbs: "onClickCallbacks s' = onClickCallbacks s"
  shows "handles_inv s'"
proof -
  have bound: "\<And>y h. registry s y = Some h \<Longrightarrow> h < currentHandle s"
    using inv by (simp add: handles_inv_def)
  have inj: "\<And>y z h. registry s y = Some h \<Longrightarrow> registry s z = Some h \<Longrightarrow> y = z"
    using inv unfolding handles_inv_def by blast
  have "\<forall>y h. registry s' y = Some h \<longrightarrow> h < currentHandle s'"
    using bound by (auto simp: reg cnt less_Suc_eq split: if_splits)
  moreover have "\<forall>y z h. registry s' y = Some h \<longrightarrow> registry s' z = Some h \<longrightarrow> y = z"
    using bound inj by (auto simp: reg split: if_splits)
  moreover have "\<forall>k cb. onClickCallbacks s' k = Some cb \<longrightarrow> k < currentHandle s'"
    using inv by (auto simp: handles_inv_def cbs cnt less_Suc_eq)
  ultimately show ?thesis
    by (simp add: handles_inv_def)
qed

lemma registry_dialog_upd:
  "registry (s\<lparr>currentHandle := c, dialogHandles := (dialogHandles s)(d \<mapsto> h)\<rparr>)
     = (registry s)(Dialog d \<mapsto> h)"
  by (rule ext) (simp add: registry_def split: obj.splits)

lemma registry_tab_upd:
  "registry (s\<lparr>currentHandle := c, tabHandles := (tabHandles s)(t \<mapsto> h)\<rparr>)
     = (registry s)(Tab t \<mapsto> h)"
  by (rule ext) (simp add: registry_def split: obj.splits)

lemma registry_button_upd:
  "registry (s\<lparr>currentHandle := c, buttonHandles := (buttonHandles s)(b \<mapsto> h)\<rparr>)
     = (registry s)(Button b \<mapsto> h)"
  by (rule ext) (simp add: registry_def split: obj.splits)

lemma registry_eqI:
  "dialogHandles s' = dialogHandles s \<Longrightarrow> tabHandles s' = tabHandles s \<Longrightarrow>
   buttonHandles s' = buttonHandles s \<Longrightarrow> registry s' = registry s"
  by (rule ext) (simp add: registry_def split: obj.splits)

lemma registry_unchanged [simp]:
  "registry (s\<lparr>outbox := ob\<rparr>) = registry s"
  "registry (s\<lparr>invocations := iv\<rparr>) = registry s"
  "registry (s\<lparr>onClickCallbacks := cbs\<rparr>) = registry s"
  "registry (s\<lparr>nextRef := n\<rparr>) = registry s"
  "registry (s\<lparr>dialogs := ds\<rparr>) = registry s"
  "registry (s\<lparr>tabs := ts\<rparr>) = registry s"
  "registry (s\<lparr>buttons := bs\<rparr>) = registry s"
  "registry (s\<lparr>currentHandle := c\<rparr>) = registry s"
  by (rule registry_eqI; simp)+

lemma registry_handles_upd:
  "registry (s\<lparr>dialogHandles := dm\<rparr>) x =
     (case x of Dialog d \<Rightarrow> dm d | _ \<Rightarrow> registry s x)"
  "registry (s\<lparr>tabHandles := tm\<rparr>) x =
     (case x of Tab t \<Rightarrow> tm t | _ \<Rightarrow> registry s x)"
  "registry (s\<lparr>buttonHandles := bm\<rparr>) x =
     (case x of Button b \<Rightarrow> bm b | _ \<Rightarrow> registry s x)"
  by (simp_all add: registry_def split: obj.splits)

text \<open>Taking the counter's value for an object and storing it keeps the invariant.\<close>

lemma handles_inv_new_dialog:
  "handles_inv s \<Longrightarrow>
   handles_inv (s\<lparr>currentHandle := Suc (currentHandle s),
                   dialogHandles := (dialogHandles s)(d \<mapsto> currentHandle s)\<rparr>)"
  by (erule handles_inv_assign [where x = "Dialog d"]) (simp_all add: registry_dialog_upd)

lemma handles_inv_new_tab:
  "handles_inv s \<Longrightarrow>
   handles_inv (s\<lparr>currentHandle := Suc (currentHandle s),
                   tabHandles := (tabHandles s)(t \<mapsto> currentHandle s)\<rparr>)"
  by (erule handles_inv_assign [where x = "Tab t"]) (simp_all add: registry_tab_upd)

lemma handles_inv_new_button:
  "handles_inv s \<Longrightarrow>
   handles_inv (s\<lparr>currentHandle := Suc (currentHandle s),
                   buttonHandles := (buttonHandles s)(b \<mapsto> currentHandle s)\<rparr>)"
  by (erule handles_inv_assign [where x = "Button b"]) (simp_all add: registry_button_upd)

subsection \<open>Child synchronization\<close>

lemma child_sync_refl: "child_sync s s"
  by (simp add: child_sync_def)

lemma child_sync_trans:
  assumes "child_sync s s1" "child_sync s1 s2"
  shows "child_sync s s2"
proof -
  obtain ms where ms: "outbox s1 = outbox s @ ms" "\<not> list_ex is_SetDialogDetails ms"
    using assms(1) by (auto simp: child_sync_def)
  obtain ms' where ms': "outbox s2 = outbox s1 @ ms'" "\<not> list_ex is_SetDialogDetails ms'"
    using assms(2) by (auto simp: child_sync_def)
  have "outbox s2 = outbox s @ (ms @ ms') \<and> \<not> list_ex is_SetDialogDetails (ms @ ms')"
    using ms ms' by (auto simp: list_ex_iff)
  then have out: "\<exists>m. outbox s2 = outbox s @ m \<and> \<not> list_ex is_SetDialogDetails m"
    by blast
  have le: "dialogHandles s \<subseteq>\<^sub>m dialogHandles s2" "tabHandles s \<subseteq>\<^sub>m tabHandles s2"
      "buttonHandles s \<subseteq>\<^sub>m buttonHandles s2"
    using assms by (auto simp: child_sync_def intro: map_le_trans)
  show ?thesis
    using assms le out unfolding child_sync_def by simp
qed

lemma handles_inv_send: "handles_inv (send m s) = handles_inv s"
proof -
  have "registry (send m s) = registry s"
    by (rule registry_eqI) (simp_all add: send_def)
  then show ?thesis
    by (simp add: handles_inv_def send_def)
qed

lemma child_sync_send:
  "\<not> is_SetDialogDetails m \<Longrightarrow> child_sync s (send m s)"
  by (simp add: child_sync_def handles_inv_send) (simp add: send_def)

lemma child_sync_getDialogHandle: "child_sync s (snd (getDialogHandle s d))"
proof (cases "dialogHandles s d")
  case None
  then have "dialogHandles s \<subseteq>\<^sub>m (dialogHandles s)(d \<mapsto> currentHandle s)"
    by (auto simp: map_le_def)
  with None show ?thesis
    by (simp add: getDialogHandle_def getNewHandle_def child_sync_def handles_inv_new_dialog
        registry_dialog_upd)
next
  case (Some h)
  then show ?thesis by (simp add: getDialogHandle_def child_sync_refl)
qed

lemma child_sync_getTabHandle: "child_sync s (snd (getTabHandle s t))"
proof (cases "tabHandles s t")
  case None
  then have "tabHandles s \<subseteq>\<^sub>m (tabHandles s)(t \<mapsto> currentHandle s)"
    by (auto simp: map_le_def)
  with None show ?thesis
    by (simp add: getTabHandle_def getNewHandle_def child_sync_def handles_inv_new_tab
        registry_tab_upd)
next
  case (Some h)
  then show ?thesis by (simp add: getTabHandle_def child_sync_refl)
qed

lemma child_sync_getButtonHandle: "child_sync s (snd (getButtonHandle s b))"
proof (cases "buttonHandles s b")
  case None
  then have "buttonHandles s \<subseteq>\<^sub>m (buttonHandles s)(b \<mapsto> currentHandle s)"
    by (auto simp: map_le_def)
  with None show ?thesis
    by (simp add: getButtonHandle_def getNewHandle_def child_sync_def handles_inv_new_button
        registry_button_upd)
next
  case (Some h)
  then show ?thesis by (simp add: getButtonHandle_def child_sync_refl)
qed

lemma child_sync_updateButton: "child_sync s (snd (updateButton s b))"
proof -
  obtain h s1 where g: "getButtonHandle s b = (h, s1)"
    by (cases "getButtonHandle s b")
  have s1: "child_sync s s1"
    using child_sync_getButtonHandle [of s b] g by simp
  show ?thesis
  proof (cases "buttons s1 b")
    case None
    with g s1 show ?thesis by (simp add: updateButton_def)
  next
    case (Some btn)
    have "child_sync s1 (send (SetButtonDetails h \<lparr>bd_label = label btn, bd_enabled = enabled btn\<rparr>) s1)"
      by (rule child_sync_send) simp
    with s1 have "child_sync s (send (SetButtonDetails h \<lparr>bd_label = label btn, bd_enabled = enabled btn\<rparr>) s1)"
      by (rule child_sync_trans)
    with g Some show ?thesis by (simp add: updateButton_def)
  qed
qed

lemma child_sync_updateTabContent: "child_sync s (snd (updateTabContent s t))"
proof -
  obtain h s1 where g: "getTabHandle s t = (h, s1)"
    by (cases "getTabHandle s t")
  have s1: "child_sync s s1"
    using child_sync_getTabHandle [of s t] g by simp
  show ?thesis
  proof (cases "tabs s1 t")
    case None
    with g s1 show ?thesis by (simp add: updateTabContent_def)
  next
    case (Some tb)
    have "child_sync s1 (send (SetTabDetails h \<lparr>td_title = tab_title tb, td_content = tab_content tb\<rparr>) s1)"
      by (rule child_sync_send) simp
    with s1 have "child_sync s (send (SetTabDetails h \<lparr>td_title = tab_title tb, td_content = tab_content tb\<rparr>) s1)"
      by (rule child_sync_trans)
    with g Some show ?thesis by (simp add: updateTabContent_def)
  qed
qed

lemma child_sync_TabImpl_updateContent: "child_sync s (snd (TabImpl_updateContent s t))"
  by (simp add: TabImpl_updateContent_def child_sync_refl child_sync_updateTabContent
      split: option.splits)

lemma child_sync_forEach_updateContent: "child_sync s (snd (forEach_updateContent s ts))"
proof (induction ts arbitrary: s)
  case Nil
  show ?case by (simp add: child_sync_refl)
next
  case (Cons t ts)
  obtain r s1 where u: "TabImpl_updateContent s t = (r, s1)"
    by (cases "TabImpl_updateContent s t")
  have s1: "child_sync s s1"
    using child_sync_TabImpl_updateContent [of s t] u by simp
  show ?case
  proof (cases r)
    case (Inl e)
    with u s1 show ?thesis by (simp add: andThen_def)
  next
    case (Inr x)
    have "child_sync s (snd (forEach_updateContent s1 ts))"
      using s1 Cons.IH [of s1] by (rule child_sync_trans)
    with u Inr show ?thesis by (simp add: andThen_def)
  qed
qed

lemma child_sync_forEach_updateButton: "child_sync s (snd (forEach_updateButton s bs))"
proof (induction bs arbitrary: s)
  case Nil
  show ?case by (simp add: child_sync_refl)
next
  case (Cons b bs)
  obtain r s1 where u: "updateButton s b = (r, s1)"
    by (cases "updateButton s b")
  have s1: "child_sync s s1"
    using child_sync_updateButton [of s b] u by simp
  show ?case
  proof (cases r)
    case (Inl e)
    with u s1 show ?thesis by (simp add: andThen_def)
  next
    case (Inr x)
    have "child_sync s (snd (forEach_updateButton s1 bs))"
      using s1 Cons.IH [of s1] by (rule child_sync_trans)
    with u Inr show ?thesis by (simp add: andThen_def)
  qed
qed

lemma child_sync_map_getTabHandle: "child_sync s (snd (map_getTabHandle s ts))"
proof (induction ts arbitrary: s)
  case Nil
  show ?case by (simp add: child_sync_refl)
next
  case (Cons t ts)
  have "child_sync s (snd (map_getTabHandle (snd (getTabHandle s t)) ts))"
    using child_sync_getTabHandle [of s t] Cons.IH by (rule child_sync_trans)
  then show ?case by (simp add: split_beta)
qed

lemma child_sync_map_getButtonHandle: "child_sync s (snd (map_getButtonHandle s bs))"
proof (induction bs arbitrary: s)
  case Nil
  show ?case by (simp add: child_sync_refl)
next
  case (Cons b bs)
  have "child_sync s (snd (map_getButtonHandle (snd (getButtonHandle s b)) bs))"
    using child_sync_getButtonHandle [of s b] Cons.IH by (rule child_sync_trans)
  then show ?case by (simp add: split_beta)
qed

lemma child_sync_sync_tabs: "child_sync s (snd (sync_tabs s c))"
  by (simp add: sync_tabs_def child_sync_refl child_sync_forEach_updateContent split: content.splits)

lemma child_sync_sync_customButtons: "child_sync s (snd (sync_customButtons s cbs))"
  by (simp add: sync_customButtons_def child_sync_refl child_sync_forEach_updateButton
      split: option.splits)

lemma child_sync_content_details: "child_sync s (snd (content_details s c))"
  by (simp add: content_details_def child_sync_refl child_sync_map_getTabHandle split_beta
      split: content.splits)

lemma child_sync_customButtons_details: "child_sync s (snd (customButtons_details s cbs))"
  by (simp add: customButtons_details_def child_sync_refl child_sync_map_getButtonHandle split_beta
      split: option.splits)

lemma child_sync_andThen:
  assumes "child_sync s (snd r)" and "\<And>x s1. child_sync s1 (snd (f x s1))"
  shows "child_sync s (snd (andThen r f))"
proof (cases r)
  case (Pair res s1)
  show ?thesis
  proof (cases res)
    case (Inl e)
    with Pair assms(1) show ?thesis by (simp add: andThen_def)
  next
    case (Inr x)
    have "child_sync s (snd (f x s1))"
      using assms(1) assms(2) [of s1 x] Pair by (auto intro: child_sync_trans)
    with Pair Inr show ?thesis by (simp add: andThen_def)
  qed
qed

lemma child_sync_sync_children: "child_sync s (snd (sync_children s dlg))"
  unfolding sync_children_def
  by (intro child_sync_andThen child_sync_sync_tabs child_sync_sync_customButtons
      child_sync_updateButton)

lemma child_sync_dialog_details_of: "child_sync s (snd (dialog_details_of s dlg))"
proof -
  define s6 where "s6 = snd (getButtonHandle s (okButton dlg))"
  define s7 where "s7 = snd (getButtonHandle s6 (cancelButton dlg))"
  define s8 where "s8 = snd (content_details s7 (content dlg))"
  define s9 where "s9 = snd (customButtons_details s8 (customButtons dlg))"
  have "child_sync s s6" "child_sync s6 s7" "child_sync s7 s8" "child_sync s8 s9"
    by (simp_all add: s6_def s7_def s8_def s9_def child_sync_getButtonHandle
        child_sync_content_details child_sync_customButtons_details)
  then have "child_sync s s9"
    by (blast intro: child_sync_trans)
  moreover have "snd (dialog_details_of s dlg) = s9"
    by (simp add: dialog_details_of_def split_beta s6_def s7_def s8_def s9_def)
  ultimately show ?thesis by simp
qed

subsection \<open>What every operation keeps\<close>

lemma evolves_refl: "evolves s s"
  by (simp add: evolves_def)

lemma nameable_mono: "nextRef s \<le> nextRef s' \<Longrightarrow> nameable s r \<Longrightarrow> nameable s' r"
  by (cases r) simp_all

lemma evolvesD:
  assumes "evolves s s'"
  shows "nextRef s \<le> nextRef s'" "currentHandle s \<le> currentHandle s'"
    "\<And>r h. nameable s r \<Longrightarrow> dialogHandles s r = Some h \<Longrightarrow> dialogHandles s' r = Some h"
    "\<And>r h. nameable s r \<Longrightarrow> tabHandles s r = Some h \<Longrightarrow> tabHandles s' r = Some h"
    "\<And>r h. nameable s r \<Longrightarrow> buttonHandles s r = Some h \<Longrightarrow> buttonHandles s' r = Some h"
    "\<And>r. dialogs s r \<noteq> None \<Longrightarrow> dialogs s' r \<noteq> None"
    "\<And>r. tabs s r \<noteq> None \<Longrightarrow> tabs s' r \<noteq> None"
    "\<And>r. buttons s r \<noteq> None \<Longrightarrow> buttons s' r \<noteq> None"
    "\<And>x h. h < currentHandle s \<Longrightarrow> registry s' x = Some h \<Longrightarrow> registry s x = Some h"
    "\<And>k. onClickCallbacks s k \<noteq> None \<Longrightarrow> onClickCallbacks s' k \<noteq> None"
    "\<And>k. k < currentHandle s \<Longrightarrow> \<forall>x. registry s x \<noteq> Some k \<Longrightarrow>
          onClickCallbacks s k = None \<Longrightarrow> onClickCallbacks s' k = None"
    "handles_inv s \<Longrightarrow> handles_inv s'"
  using assms unfolding evolves_def by blast+

lemma evolves_trans:
  assumes a: "evolves s s1" and b: "evolves s1 s2"
  shows "evolves s s2"
proof -
  note A = evolvesD [OF a] and B = evolvesD [OF b]
  have nm: "nameable s1 r" if "nameable s r" for r
    using that A(1) by (rule nameable_mono [rotated])
  have reg: "registry s x = Some h" if "h < currentHandle s" "registry s2 x = Some h" for x h
  proof -
    have "h < currentHandle s1" using that(1) A(2) by simp
    then have "registry s1 x = Some h" using that(2) by (rule B(9))
    with that(1) show ?thesis by (rule A(9))
  qed
  have dead: "onClickCallbacks s2 k = None"
    if "k < currentHandle s" "\<forall>x. registry s x \<noteq> Some k" "onClickCallbacks s k = None" for k
  proof -
    have "onClickCallbacks s1 k = None" using that by (rule A(11))
    moreover have "k < currentHandle s1" using that(1) A(2) by simp
    moreover have "\<forall>x. registry s1 x \<noteq> Some k" using that(1,2) A(9) by blast
    ultimately show ?thesis by (intro B(11))
  qed
  show ?thesis
    unfolding evolves_def
  proof (intro conjI allI impI)
    show "nextRef s \<le> nextRef s2" using A(1) B(1) by simp
    show "currentHandle s \<le> currentHandle s2" using A(2) B(2) by simp
    show "dialogHandles s2 r = Some h" if "nameable s r" "dialogHandles s r = Some h" for r h
      using that nm A(3) B(3) by blast
    show "tabHandles s2 r = Some h" if "nameable s r" "tabHandles s r = Some h" for r h
      using that nm A(4) B(4) by blast
    show "buttonHandles s2 r = Some h" if "nameable s r" "buttonHandles s r = Some h" for r h
      using that nm A(5) B(5) by blast
    show "dialogs s2 r \<noteq> None" if "dialogs s r \<noteq> None" for r
      using that A(6) B(6) by blast
    show "tabs s2 r \<noteq> None" if "tabs s r \<noteq> None" for r
      using that A(7) B(7) by blast
    show "buttons s2 r \<noteq> None" if "buttons s r \<noteq> None" for r
      using that A(8) B(8) by blast
    show "registry s x = Some h" if "h < currentHandle s" "registry s2 x = Some h" for x h
      using that by (rule reg)
    show "onClickCallbacks s2 k \<noteq> None" if "onClickCallbacks s k \<noteq> None" for k
      using that A(10) B(10) by blast
    show "onClickCallbacks s2 k = None"
      if "k < currentHandle s" "\<forall>x. registry s x \<noteq> Some k" "onClickCallbacks s k = None" for k
      using that by (rule dead)
    show "handles_inv s2" if "handles_inv s"
      using that A(12) B(12) by blast
  qed
qed

lemma child_sync_evolves:
  assumes "child_sync s s'"
  shows "evolves s s'"
proof -
  have "\<And>m m' r h. m \<subseteq>\<^sub>m m' \<Longrightarrow> m r = Some h \<Longrightarrow> m' r = Some (h::nat)"
    by (metis domI map_le_def)
  then show ?thesis
    using assms unfolding evolves_def child_sync_def by auto
qed

lemma handles_inv_eqI:
  assumes "handles_inv s" "dialogHandles s' = dialogHandles s" "tabHandles s' = tabHandles s"
    "buttonHandles s' = buttonHandles s" "currentHandle s' = currentHandle s"
    "onClickCallbacks s' = onClickCallbacks s"
  shows "handles_inv s'"
  using assms(1) registry_eqI [OF assms(2,3,4)] assms(5,6) by (rule handles_inv_same)

lemma evolves_send: "evolves s (send m s)"
  by (simp add: evolves_def handles_inv_send) (simp add: send_def)

lemma evolves_andThen:
  assumes "evolves s (snd r)" and "\<And>x s1. evolves s1 (snd (f x s1))"
  shows "evolves s (snd (andThen r f))"
proof (cases r)
  case (Pair res s1)
  show ?thesis
  proof (cases res)
    case (Inl e)
    with Pair assms(1) show ?thesis by (simp add: andThen_def)
  next
    case (Inr x)
    have "evolves s (snd (f x s1))"
      using assms(1) assms(2) [of s1 x] Pair by (auto intro: evolves_trans)
    with Pair Inr show ?thesis by (simp add: andThen_def)
  qed
qed

lemma evolves_updateDialogContent: "evolves s (snd (updateDialogContent s d))"
proof -
  obtain h s1 where g: "getDialogHandle s d = (h, s1)"
    by (cases "getDialogHandle s d")
  have s1: "evolves s s1"
    using child_sync_getDialogHandle [of s d] g by (simp add: child_sync_evolves)
  show ?thesis
  proof (cases "dialogs s1 d")
    case None
    with g s1 show ?thesis by (simp add: updateDialogContent_def)
  next
    case (Some dlg)
    have "evolves s1 (snd (andThen (sync_children s1 dlg) (\<lambda>_ s5.
               let (dd, s9) = dialog_details_of s5 dlg
               in (Inr (), send (SetDialogDetails h dd) s9))))"
    proof (rule evolves_andThen)
      show "evolves s1 (snd (sync_children s1 dlg))"
        by (simp add: child_sync_evolves child_sync_sync_children)
    next
      fix x :: unit and s5
      have "evolves s5 (snd (dialog_details_of s5 dlg))"
        by (simp add: child_sync_evolves child_sync_dialog_details_of)
      then have "evolves s5 (send (SetDialogDetails h (fst (dialog_details_of s5 dlg)))
                               (snd (dialog_details_of s5 dlg)))"
        using evolves_send evolves_trans by blast
      then show "evolves s5 (snd (let (dd, s9) = dialog_details_of s5 dlg
               in (Inr (), send (SetDialogDetails h dd) s9)))"
        by (simp add: split_beta)
    qed
    with s1 have "evolves s (snd (andThen (sync_children s1 dlg) (\<lambda>_ s5.
               let (dd, s9) = dialog_details_of s5 dlg
               in (Inr (), send (SetDialogDetails h dd) s9))))"
      by (rule evolves_trans)
    with g Some show ?thesis by (simp add: updateDialogContent_def)
  qed
qed

lemma evolves_open_dialog: "evolves s (snd (open_dialog s d))"
proof -
  obtain h s1 where g: "getDialogHandle s d = (h, s1)"
    by (cases "getDialogHandle s d")
  have s1: "evolves s s1"
    using child_sync_getDialogHandle [of s d] g by (simp add: child_sync_evolves)
  have "evolves s1 (snd (andThen (updateDialogContent s1 d) (\<lambda>_ s2. (Inr (), send (MOpen h) s2))))"
    by (rule evolves_andThen) (simp_all add: evolves_updateDialogContent evolves_send)
  with s1 have "evolves s (snd (andThen (updateDialogContent s1 d) (\<lambda>_ s2. (Inr (), send (MOpen h) s2))))"
    by (rule evolves_trans)
  with g show ?thesis by (simp add: open_dialog_def)
qed

lemma evolves_close_dialog: "evolves s (close_dialog s d)"
proof -
  have "evolves s (snd (getDialogHandle s d))"
    by (simp add: child_sync_evolves child_sync_getDialogHandle)
  then have "evolves s (send (MClose (fst (getDialogHandle s d))) (snd (getDialogHandle s d)))"
    using evolves_send evolves_trans by blast
  then show ?thesis by (simp add: close_dialog_def split_beta)
qed

lemma evolves_buttons_upd:
  "evolves s (s\<lparr>buttons := (buttons s)(b \<mapsto> btn)\<rparr>)"
proof -
  have "handles_inv s \<Longrightarrow> handles_inv (s\<lparr>buttons := (buttons s)(b \<mapsto> btn)\<rparr>)"
    by (erule handles_inv_eqI) simp_all
  then show ?thesis by (simp add: evolves_def)
qed

lemma evolves_set_label: "evolves s (snd (set_label s b l))"
proof (cases "buttons s b")
  case None
  then show ?thesis by (simp add: set_label_def evolves_refl)
next
  case (Some btn)
  have "evolves s (s\<lparr>buttons := (buttons s)(b \<mapsto> btn\<lparr>label := Some l\<rparr>)\<rparr>)"
    by (rule evolves_buttons_upd)
  moreover have "evolves (s\<lparr>buttons := (buttons s)(b \<mapsto> btn\<lparr>label := Some l\<rparr>)\<rparr>)
      (snd (updateButton (s\<lparr>buttons := (buttons s)(b \<mapsto> btn\<lparr>label := Some l\<rparr>)\<rparr>) b))"
    by (simp add: child_sync_evolves child_sync_updateButton)
  ultimately show ?thesis
    using Some by (auto simp: set_label_def intro: evolves_trans)
qed

lemma evolves_set_enabled: "evolves s (snd (set_enabled s b e))"
proof (cases "buttons s b")
  case None
  then show ?thesis by (simp add: set_enabled_def evolves_refl)
next
  case (Some btn)
  have "evolves s (s\<lparr>buttons := (buttons s)(b \<mapsto> btn\<lparr>enabled := e\<rparr>)\<rparr>)"
    by (rule evolves_buttons_upd)
  moreover have "evolves (s\<lparr>buttons := (buttons s)(b \<mapsto> btn\<lparr>enabled := e\<rparr>)\<rparr>)
      (snd (updateButton (s\<lparr>buttons := (buttons s)(b \<mapsto> btn\<lparr>enabled := e\<rparr>)\<rparr>) b))"
    by (simp add: child_sync_evolves child_sync_updateButton)
  ultimately show ?thesis
    using Some by (auto simp: set_enabled_def intro: evolves_trans)
qed

lemma getButtonHandle_registered:
  "buttonHandles (snd (getButtonHandle s b)) b = Some (fst (getButtonHandle s b))"
  by (simp add: getButtonHandle_def getNewHandle_def split: option.splits)

text \<open>A dispatch entry under the handle that a button has in the registry.\<close>

lemma evolves_callbacks_upd:
  assumes "buttonHandles s b = Some h"
  shows "evolves s (s\<lparr>onClickCallbacks := (onClickCallbacks s)(h \<mapsto> cb)\<rparr>)"
proof -
  have reg: "registry s (Button b) = Some h"
    using assms by (simp add: registry_def)
  have "handles_inv (s\<lparr>onClickCallbacks := (onClickCallbacks s)(h \<mapsto> cb)\<rparr>)" if "handles_inv s"
    using that reg unfolding handles_inv_def by (simp (no_asm_simp)) blast
  moreover have "k \<noteq> h" if "\<forall>x. registry s x \<noteq> Some k" for k
    using that reg by blast
  ultimately show ?thesis
    by (simp add: evolves_def)
qed

lemma evolves_registerOnClickCallback: "evolves s (registerOnClickCallback s b cb)"
proof -
  have "evolves s (snd (getButtonHandle s b))"
    by (simp add: child_sync_evolves child_sync_getButtonHandle)
  moreover have "evolves (snd (getButtonHandle s b))
     ((snd (getButtonHandle s b))\<lparr>onClickCallbacks :=
         (onClickCallbacks (snd (getButtonHandle s b)))(fst (getButtonHandle s b) \<mapsto> cb)\<rparr>)"
    using getButtonHandle_registered by (rule evolves_callbacks_upd)
  ultimately show ?thesis
    unfolding registerOnClickCallback_def split_beta Let_def
    by (rule evolves_trans)
qed

lemma evolves_onButtonClick: "evolves s (snd (onButtonClick s h))"
proof -
  have "\<And>x. handles_inv s \<Longrightarrow> handles_inv (s\<lparr>invocations := x\<rparr>)"
    by (erule handles_inv_eqI) simp_all
  then show ?thesis
    by (simp add: onButtonClick_def evolves_def split: option.splits)
qed

lemma evolves_write_dialog: "evolves s (snd (write_dialog s d dlg))"
proof -
  have "handles_inv s \<Longrightarrow> handles_inv (s\<lparr>dialogs := (dialogs s)(d \<mapsto> dlg)\<rparr>)"
    by (erule handles_inv_eqI) simp_all
  then show ?thesis
    by (simp add: write_dialog_def evolves_def split: option.splits)
qed

lemma evolves_write_tab: "evolves s (snd (write_tab s t tb))"
proof -
  have "handles_inv s \<Longrightarrow> handles_inv (s\<lparr>tabs := (tabs s)(t \<mapsto> tb)\<rparr>)"
    by (erule handles_inv_eqI) simp_all
  then show ?thesis
    by (simp add: write_tab_def evolves_def split: option.splits)
qed

subsection \<open>The shape of a new button\<close>

lemma createButton_shape:
  "fst (createButton s l) = Inr (Obj (nextRef s)) \<and>
   nextRef (snd (createButton s l)) = nextRef s + 1 \<and>
   buttons (snd (createButton s l)) =
     (buttons s)(Obj (nextRef s) \<mapsto> \<lparr>label = Some l, enabled = True\<rparr>) \<and>
   dialogs (snd (createButton s l)) = dialogs s \<and>
   tabs (snd (createButton s l)) = tabs s \<and>
   dialogHandles (snd (createButton s l)) = dialogHandles s \<and>
   tabHandles (snd (createButton s l)) = tabHandles s"
  by (simp add: createButton_def new_ButtonImpl_def set_label_def updateButton_def
      getButtonHandle_def getNewHandle_def send_def andThen_def Let_def
      registerOnClickCallback_def getOnClickCallback_def split: option.splits)

subsection \<open>The factory operations\<close>

lemma handles_inv_createButton:
  assumes "handles_inv s"
  shows "handles_inv (snd (createButton s l))"
proof -
  define b where "b = Obj (nextRef s)"
  define s1 where "s1 = snd (new_ButtonImpl s)"
  define s2 where "s2 = snd (set_label s1 b l)"
  define s4 where "s4 = s2\<lparr>currentHandle := Suc (currentHandle s2),
                            buttonHandles := (buttonHandles s2)(b \<mapsto> currentHandle s2)\<rparr>"
  have new: "new_ButtonImpl s = (b, s1)"
    by (simp add: new_ButtonImpl_def b_def s1_def)
  have "handles_inv s1"
    using assms unfolding s1_def new_ButtonImpl_def by (rule handles_inv_eqI) simp_all
  moreover have "evolves s1 s2"
    by (simp add: s2_def evolves_set_label)
  ultimately have "handles_inv s2"
    by (simp add: evolves_def)
  then have "handles_inv s4"
    unfolding s4_def by (rule handles_inv_new_button)
  moreover have "evolves s4 (registerOnClickCallback s4 b (getOnClickCallback b))"
    by (rule evolves_registerOnClickCallback)
  ultimately have reg: "handles_inv (registerOnClickCallback s4 b (getOnClickCallback b))"
    by (simp add: evolves_def)
  have "fst (set_label s1 b l) = Inr ()"
    by (simp add: s1_def b_def new_ButtonImpl_def set_label_def updateButton_def
        getButtonHandle_def getNewHandle_def split: option.splits)
  then have "set_label s1 b l = (Inr (), s2)"
    by (simp add: s2_def prod_eq_iff)
  then have "snd (createButton s l) = registerOnClickCallback s4 b (getOnClickCallback b)"
    by (simp add: createButton_def new andThen_def getNewHandle_def s4_def)
  with reg show ?thesis by simp
qed

lemma createButton_keeps:
  "currentHandle s \<le> currentHandle (snd (createButton s l)) \<and>
   (\<forall>r. r \<noteq> Obj (nextRef s) \<longrightarrow>
        buttonHandles (snd (createButton s l)) r = buttonHandles s r) \<and>
   (\<forall>k. k < currentHandle s \<longrightarrow>
        onClickCallbacks (snd (createButton s l)) k = onClickCallbacks s k) \<and>
   (\<forall>k. onClickCallbacks s k \<noteq> None \<longrightarrow> onClickCallbacks (snd (createButton s l)) k \<noteq> None)"
  by (simp add: createButton_def new_ButtonImpl_def set_label_def updateButton_def
      getButtonHandle_def getNewHandle_def send_def andThen_def Let_def
      registerOnClickCallback_def getOnClickCallback_def split: option.splits)

lemma createButton_result:
  "outbox (snd (createButton s l)) =
     outbox s @ [SetButtonDetails (fst (getButtonHandle s (Obj (nextRef s))))
                   \<lparr>bd_label = Some l, bd_enabled = True\<rparr>] \<and>
   buttonHandles (snd (createButton s l)) (Obj (nextRef s)) =
     Some (case buttonHandles s (Obj (nextRef s)) of
             None \<Rightarrow> currentHandle s + 1 | Some h0 \<Rightarrow> currentHandle s) \<and>
   onClickCallbacks (snd (createButton s l))
     (case buttonHandles s (Obj (nextRef s)) of
             None \<Rightarrow> currentHandle s + 1 | Some h0 \<Rightarrow> currentHandle s) =
     Some (FireOnClick (Obj (nextRef s)))"
  by (simp add: createButton_def new_ButtonImpl_def set_label_def updateButton_def
      getButtonHandle_def getNewHandle_def send_def andThen_def Let_def
      registerOnClickCallback_def getOnClickCallback_def split: option.splits)

lemma createButton_no_reuse:
  assumes "h < currentHandle s" and "registry (snd (createButton s l)) x = Some h"
  shows "registry s x = Some h"
proof (cases x)
  case (Dialog d)
  with assms(2) show ?thesis
    using createButton_shape [of s l] by (simp add: registry_def)
next
  case (Tab t)
  with assms(2) show ?thesis
    using createButton_shape [of s l] by (simp add: registry_def)
next
  case (Button r)
  show ?thesis
  proof (cases "r = Obj (nextRef s)")
    case True
    with assms Button show ?thesis
      using createButton_result [of s l] by (simp add: registry_def split: option.splits)
  next
    case False
    with assms(2) Button show ?thesis
      using createButton_keeps [of s l] by (simp add: registry_def)
  qed
qed

lemma nameable_not_new: "nameable s r \<Longrightarrow> r \<noteq> Obj (nextRef s)"
  by (cases r) simp_all

lemma evolves_createButton: "evolves s (snd (createButton s l))"
  using createButton_shape [of s l] createButton_keeps [of s l] handles_inv_createButton [of s l]
    createButton_no_reuse [of _ s l] nameable_not_new [of s]
  by (simp add: evolves_def)

lemma evolves_createTab: "evolves s (snd (createTab s ttl))"
proof -
  define s1 where "s1 = s\<lparr>nextRef := nextRef s + 1,
      tabs := (tabs s)(Obj (nextRef s) \<mapsto> \<lparr>tab_title = ttl, tab_content = None\<rparr>)\<rparr>"
  have res: "snd (createTab s ttl) =
      s1\<lparr>currentHandle := Suc (currentHandle s1),
         tabHandles := (tabHandles s1)(Obj (nextRef s) \<mapsto> currentHandle s1)\<rparr>"
    by (simp add: createTab_def getNewHandle_def Let_def s1_def)
  have "handles_inv s \<Longrightarrow> handles_inv s1"
    unfolding s1_def by (erule handles_inv_eqI) simp_all
  then have "handles_inv s \<Longrightarrow> handles_inv (snd (createTab s ttl))"
    unfolding res by (intro handles_inv_new_tab)
  then show ?thesis
    using nameable_not_new [of s]
    by (simp add: evolves_def)
       (auto simp: res s1_def registry_handles_upd registry_def split: obj.splits if_splits)
qed

lemma evolves_createDialog: "evolves s (snd (createDialog s ttl))"
proof -
  define d where "d = Obj (nextRef s)"
  define s0 where "s0 = s\<lparr>nextRef := nextRef s + 1\<rparr>"
  define s1 where "s1 = snd (createButton s0 ''Done'')"
  define s2 where "s2 = snd (createButton s1 ''Cancel'')"
  define dlg where "dlg = \<lparr>title = ttl, content = NoContent, okButton = Obj (nextRef s + 1),
               cancelButton = Obj (nextRef s + 2), customButtons = None\<rparr>"
  define s3 where "s3 = s2\<lparr>dialogs := (dialogs s2)(d \<mapsto> dlg)\<rparr>"
  define s4 where "s4 = s3\<lparr>currentHandle := Suc (currentHandle s3),
          dialogHandles := (dialogHandles s3)(d \<mapsto> currentHandle s3)\<rparr>"
  have ok: "createButton s0 ''Done'' = (Inr (Obj (nextRef s + 1)), s1)"
    using createButton_shape [of s0 "''Done''"] by (simp add: s1_def s0_def prod_eq_iff)
  have n1: "nextRef s1 = nextRef s + 2"
    using createButton_shape [of s0 "''Done''"] by (simp add: s1_def s0_def)
  have cancel: "createButton s1 ''Cancel'' = (Inr (Obj (nextRef s + 2)), s2)"
    using createButton_shape [of s1 "''Cancel''"] n1 by (simp add: s2_def prod_eq_iff)
  have res: "snd (createDialog s ttl) = s4"
    using ok cancel
    by (simp add: createDialog_def localize_def andThen_def getNewHandle_def Let_def
        s0_def s4_def s3_def dlg_def d_def)
  have "handles_inv s \<Longrightarrow> handles_inv s0"
    unfolding s0_def by (erule handles_inv_eqI) simp_all
  then have e0: "evolves s s0"
    by (simp add: evolves_def) (auto simp: s0_def intro: nameable_mono)
  have "evolves s0 s1" "evolves s1 s2"
    by (simp_all add: s1_def s2_def evolves_createButton)
  with e0 have e2: "evolves s s2"
    by (blast intro: evolves_trans)
  note E = evolvesD [OF e2]
  have inv3: "handles_inv s2 \<Longrightarrow> handles_inv s3"
    unfolding s3_def by (erule handles_inv_eqI) simp_all
  have inv4: "handles_inv s4" if "handles_inv s"
    unfolding s4_def using that E(12) inv3 by (intro handles_inv_new_dialog) blast
  have reg: "registry s x = Some h" if "h < currentHandle s" "registry s4 x = Some h" for x h
  proof -
    have "h < currentHandle s2"
      using that(1) E(2) by simp
    then have "registry s2 x = Some h"
      using that(2)
      by (auto simp: s4_def s3_def registry_handles_upd registry_def split: obj.splits if_splits)
    with that(1) show ?thesis
      by (rule E(9))
  qed
  have same: "nextRef s4 = nextRef s2" "currentHandle s2 \<le> currentHandle s4"
    "tabHandles s4 = tabHandles s2" "buttonHandles s4 = buttonHandles s2"
    "tabs s4 = tabs s2" "buttons s4 = buttons s2" "onClickCallbacks s4 = onClickCallbacks s2"
    by (simp_all add: s4_def s3_def)
  have dh: "dialogHandles s4 r = dialogHandles s2 r" if "nameable s r" for r
    using nameable_not_new [OF that] by (simp add: s4_def s3_def d_def)
  have dl: "dialogs s4 r \<noteq> None" if "dialogs s2 r \<noteq> None" for r
    using that by (simp add: s4_def s3_def)
  have "evolves s s4"
    unfolding evolves_def
  proof (intro conjI allI impI)
    show "nextRef s \<le> nextRef s4" using E(1) same(1) by simp
    show "currentHandle s \<le> currentHandle s4" using E(2) same(2) by simp
    show "dialogHandles s4 r = Some h" if "nameable s r" "dialogHandles s r = Some h" for r h
      using that E(3) dh by simp
    show "tabHandles s4 r = Some h" if "nameable s r" "tabHandles s r = Some h" for r h
      using that E(4) same(3) by simp
    show "buttonHandles s4 r = Some h" if "nameable s r" "buttonHandles s r = Some h" for r h
      using that E(5) same(4) by simp
    show "dialogs s4 r \<noteq> None" if "dialogs s r \<noteq> None" for r
      using that E(6) dl by blast
    show "tabs s4 r \<noteq> None" if "tabs s r \<noteq> None" for r
      using that E(7) same(5) by simp
    show "buttons s4 r \<noteq> None" if "buttons s r \<noteq> None" for r
      using that E(8) same(6) by simp
    show "registry s x = Some h" if "h < currentHandle s" "registry s4 x = Some h" for x h
      using that by (rule reg)
    show "onClickCallbacks s4 k \<noteq> None" if "onClickCallbacks s k \<noteq> None" for k
      using that E(10) same(7) by simp
    show "onClickCallbacks s4 k = None"
      if "k < currentHandle s" "\<forall>x. registry s x \<noteq> Some k" "onClickCallbacks s k = None" for k
      using that E(11) same(7) by simp
    show "handles_inv s4" if "handles_inv s"
      using that by (rule inv4)
  qed
  then show ?thesis by (simp add: res)
qed

subsection \<open>Runs\<close>

lemma evolves_step: "evolves s (step op s)"
  by (cases op)
     (simp_all add: evolves_createDialog evolves_createTab evolves_createButton evolves_set_label
        evolves_set_enabled evolves_write_dialog evolves_write_tab evolves_open_dialog
        evolves_close_dialog evolves_updateDialogContent child_sync_evolves
        child_sync_updateTabContent child_sync_updateButton evolves_registerOnClickCallback
        evolves_onButtonClick)

lemma evolves_exec: "evolves s (exec ops s)"
proof (induction ops arbitrary: s)
  case Nil
  show ?case by (simp add: exec_def evolves_refl)
next
  case (Cons op ops)
  have "evolves s (step op s)" by (rule evolves_step)
  moreover have "evolves (step op s) (exec ops (step op s))" by (rule Cons.IH)
  ultimately show ?case
    by (auto simp: exec_def intro: evolves_trans)
qed

lemma handles_inv_exec: "handles_inv (exec ops initial)"
  using evolves_exec [of initial ops] handles_inv_initial by (simp add: evolves_def)

subsection \<open>The handle allocator\<close>

lemma getNewHandle_calls_upt:
  "fst (getNewHandle_calls n s) = [currentHandle s ..< currentHandle s + n]"
proof (induction n arbitrary: s)
  case 0
  show ?case by simp
next
  case (Suc n)
  have "fst (getNewHandle_calls n (s\<lparr>currentHandle := currentHandle s + 1\<rparr>))
          = [currentHandle s + 1 ..< currentHandle s + 1 + n]"
    using Suc.IH [of "s\<lparr>currentHandle := currentHandle s + 1\<rparr>"] by simp
  then show ?case
    by (simp add: getNewHandle_def split_beta upt_rec [of "currentHandle s"])
qed

text \<open>
  C6. The allocator starts at 0 and counts up: \<open>n\<close> calls from the initial state return
  \<open>0, 1, ..., n - 1\<close> in this order, so the call number \<open>k\<close> (counting from 1) returns
  \<open>k - 1\<close>. From any state the values returned are consecutive, hence an earlier call
  returns a strictly smaller value than a later one, and no value is returned twice. This
  stays so when any run of operations lies between two calls, because no operation sets
  the counter back.
\<close>

theorem getNewHandle_strictly_increasing_from_zero:
  "fst (getNewHandle_calls n initial) = [0..<n] \<and>
   fst (getNewHandle_calls n s) = [currentHandle s ..< currentHandle s + n] \<and>
   sorted_wrt (<) (fst (getNewHandle_calls n s)) \<and>
   distinct (fst (getNewHandle_calls n s)) \<and>
   fst (getNewHandle s) < fst (getNewHandle (exec ops (snd (getNewHandle s))))"
proof -
  have "fst (getNewHandle_calls n initial) = [0..<n]"
    using getNewHandle_calls_upt [of n initial] by (simp add: initial_def)
  moreover have "fst (getNewHandle s) < fst (getNewHandle (exec ops (snd (getNewHandle s))))"
    using evolves_exec [of "snd (getNewHandle s)" ops]
    by (simp add: evolves_def getNewHandle_def)
  ultimately show ?thesis
    by (simp add: getNewHandle_calls_upt)
qed

subsection \<open>Get-or-assign on the united registry\<close>

lemma getOrAssign_value:
  "fst (getOrAssign s x) = (case registry s x of Some h \<Rightarrow> h | None \<Rightarrow> currentHandle s)"
  by (cases x)
     (simp_all add: getOrAssign_def registry_def getDialogHandle_def getTabHandle_def
        getButtonHandle_def getNewHandle_def split: option.splits)

lemma getOrAssign_registered:
  "registry (snd (getOrAssign s x)) x = Some (fst (getOrAssign s x))"
  by (cases x)
     (simp_all add: getOrAssign_def registry_def getDialogHandle_def getTabHandle_def
        getButtonHandle_def getNewHandle_def split: option.splits)

lemma handles_inv_getOrAssign:
  "handles_inv s \<Longrightarrow> handles_inv (snd (getOrAssign s x))"
  using child_sync_getDialogHandle child_sync_getTabHandle child_sync_getButtonHandle
  by (cases x) (auto simp: getOrAssign_def child_sync_def)

text \<open>
  C7. The registries are keyed by the identity of the object. In every state that a run
  reaches from the initial state, get-or-assign for an object and a later get-or-assign
  for a different object, right after it or after any further run, return two different
  handles, whatever the fields of the two objects are and whether or not they are of the
  same class.
\<close>

theorem distinct_objects_distinct_handles:
  assumes "x \<noteq> y"
  shows "fst (getOrAssign (exec ops initial) x)
           \<noteq> fst (getOrAssign (exec ops' (snd (getOrAssign (exec ops initial) x))) y)"
proof -
  define s where "s = exec ops initial"
  define h where "h = fst (getOrAssign s x)"
  define s1 where "s1 = snd (getOrAssign s x)"
  define s2 where "s2 = exec ops' s1"
  have inv: "handles_inv s1"
    unfolding s1_def s_def by (intro handles_inv_getOrAssign handles_inv_exec)
  have x: "registry s1 x = Some h"
    by (simp add: s1_def h_def getOrAssign_registered)
  then have lt: "h < currentHandle s1"
    using inv by (simp add: handles_inv_def)
  have ev: "evolves s1 s2"
    by (simp add: s2_def evolves_exec)
  have "fst (getOrAssign s2 y) \<noteq> h"
  proof (cases "registry s2 y")
    case None
    have "currentHandle s1 \<le> currentHandle s2"
      using ev by (simp add: evolves_def)
    with None lt show ?thesis by (simp add: getOrAssign_value)
  next
    case (Some h')
    have "h' \<noteq> h"
    proof
      assume "h' = h"
      with Some lt ev have "registry s1 y = Some h"
        unfolding evolves_def by blast
      with inv x assms show False
        unfolding handles_inv_def by blast
    qed
    with Some show ?thesis by (simp add: getOrAssign_value)
  qed
  then show ?thesis
    by (simp add: s_def h_def s1_def s2_def)
qed

text \<open>
  Three buttons made with the same label: the second and the third have the same fields,
  and the handles 3 and 5, also when a fourth button is made between the two calls.
\<close>

theorem distinct_objects_distinct_handles_witness:
  "Button (Obj 1) \<noteq> Button (Obj 2) \<and>
   buttons (exec [CreateButton ''Go'', CreateButton ''Go'', CreateButton ''Go''] initial) (Obj 1) =
   buttons (exec [CreateButton ''Go'', CreateButton ''Go'', CreateButton ''Go''] initial) (Obj 2) \<and>
   fst (getOrAssign (exec [CreateButton ''Go'', CreateButton ''Go'', CreateButton ''Go''] initial)
          (Button (Obj 1))) = 3 \<and>
   fst (getOrAssign
          (exec [CreateButton ''Go'']
             (snd (getOrAssign
                (exec [CreateButton ''Go'', CreateButton ''Go'', CreateButton ''Go''] initial)
                (Button (Obj 1)))))
          (Button (Obj 2))) = 5"
  using distinct_objects_distinct_handles
          [of "Button (Obj 1)" "Button (Obj 2)" "[CreateButton ''Go'', CreateButton ''Go'', CreateButton ''Go'']"
              "[CreateButton ''Go'']"]
  by (simp add: exec_def initial_def createButton_def new_ButtonImpl_def set_label_def updateButton_def
      getButtonHandle_def getNewHandle_def send_def andThen_def getOrAssign_def
      registerOnClickCallback_def getOnClickCallback_def)

subsection \<open>Get-or-assign in each registry\<close>

text \<open>
  A call made right after a call for the same object returns the same handle and leaves
  the state as the first call left it.
\<close>

lemma getOrAssign_repeated:
  "getDialogHandle (snd (getDialogHandle s d)) d = getDialogHandle s d \<and>
   getTabHandle (snd (getTabHandle s t)) t = getTabHandle s t \<and>
   getButtonHandle (snd (getButtonHandle s b)) b = getButtonHandle s b"
  by (simp add: getDialogHandle_def getTabHandle_def getButtonHandle_def getNewHandle_def
      split: option.splits)

text \<open>
  C5. Get-or-assign does not return the same handle on every call for a button.
  \<open>createButton\<close> in the initial state makes the object \<open>Obj 0\<close>; its label setter
  calls \<open>updateButton\<close>, whose call of \<open>getButtonHandle\<close> is the first for this
  object: the registry has no entry for it, and the call returns 0. \<open>createButton\<close>
  then stores handle 1 over the entry, so the call of \<open>getButtonHandle\<close> in
  \<open>registerOnClickCallback\<close> and every call after \<open>createButton\<close> has returned give 1.
\<close>

theorem getButtonHandle_first_call_differs:
  "set_label (snd (new_ButtonImpl initial)) (Obj 0) ''Done'' =
     updateButton
       ((snd (new_ButtonImpl initial))\<lparr>buttons :=
           (buttons (snd (new_ButtonImpl initial)))
             (Obj 0 \<mapsto> \<lparr>label = Some ''Done'', enabled = True\<rparr>)\<rparr>) (Obj 0) \<and>
   buttonHandles
       ((snd (new_ButtonImpl initial))\<lparr>buttons :=
           (buttons (snd (new_ButtonImpl initial)))
             (Obj 0 \<mapsto> \<lparr>label = Some ''Done'', enabled = True\<rparr>)\<rparr>) (Obj 0) = None \<and>
   fst (getButtonHandle
       ((snd (new_ButtonImpl initial))\<lparr>buttons :=
           (buttons (snd (new_ButtonImpl initial)))
             (Obj 0 \<mapsto> \<lparr>label = Some ''Done'', enabled = True\<rparr>)\<rparr>) (Obj 0)) = 0 \<and>
   fst (createButton initial ''Done'') = Inr (Obj 0) \<and>
   fst (getButtonHandle (snd (createButton initial ''Done'')) (Obj 0)) = 1 \<and>
   fst (getButtonHandle
          (snd (getButtonHandle (snd (createButton initial ''Done'')) (Obj 0))) (Obj 0)) = 1"
  by (simp add: initial_def createButton_def new_ButtonImpl_def set_label_def updateButton_def
      getButtonHandle_def getNewHandle_def send_def andThen_def
      registerOnClickCallback_def getOnClickCallback_def)

subsection \<open>Click dispatch\<close>

text \<open>
  C3, as the source has it. A click on a handle with a dispatch entry invokes the
  callback of that entry once, and the dispatch changes nothing else. A click on a
  handle without an entry raises the TypeError of calling \<open>undefined\<close>, invokes
  nothing and leaves the state as it was; the exception leaves \<open>$onButtonClick\<close>,
  which has no handler.
\<close>

theorem onButtonClick_dispatch:
  "(onClickCallbacks s h = Some cb \<longrightarrow>
      onButtonClick s h = (Inr (), s\<lparr>invocations := invocations s @ [cb]\<rparr>)) \<and>
   (onClickCallbacks s h = None \<longrightarrow> onButtonClick s h = (Inl TypeError, s))"
  by (simp add: onButtonClick_def)

text \<open>
  After \<open>createButton\<close> in the initial state, handle 1 has the button's callback and
  handle 0 has none.
\<close>

theorem onButtonClick_dispatch_witness:
  "onClickCallbacks (snd (createButton initial ''Done'')) 1 = Some (FireOnClick (Obj 0)) \<and>
   invocations (snd (onButtonClick (snd (createButton initial ''Done'')) 1)) = [FireOnClick (Obj 0)] \<and>
   onClickCallbacks (snd (createButton initial ''Done'')) 0 = None \<and>
   onButtonClick (snd (createButton initial ''Done'')) 0 =
     (Inl TypeError, snd (createButton initial ''Done''))"
  using onButtonClick_dispatch [of "snd (createButton initial ''Done'')" 1 "FireOnClick (Obj 0)"]
        onButtonClick_dispatch [of "snd (createButton initial ''Done'')" 0]
  by (simp add: initial_def createButton_def new_ButtonImpl_def set_label_def updateButton_def
      getButtonHandle_def getNewHandle_def send_def andThen_def
      registerOnClickCallback_def getOnClickCallback_def)

text \<open>
  The error of a click on an unregistered handle is not the UnknownHandleError that the
  specification asks for: handle 0 has no entry after \<open>createButton\<close>, and the click
  ends in a TypeError.
\<close>

theorem onButtonClick_unknown_handle_counterexample:
  "onClickCallbacks (snd (createButton initial ''Done'')) 0 = None \<and>
   fst (onButtonClick (snd (createButton initial ''Done'')) 0) = Inl TypeError \<and>
   fst (onButtonClick (snd (createButton initial ''Done'')) 0) \<noteq> Inl UnknownHandleError"
  by (simp add: initial_def createButton_def new_ButtonImpl_def set_label_def updateButton_def
      getButtonHandle_def getNewHandle_def send_def andThen_def onButtonClick_def
      registerOnClickCallback_def getOnClickCallback_def)

subsection \<open>Buttons\<close>

text \<open>
  C8. An assignment to \<open>label\<close> or to \<open>enabled\<close> of an existing button succeeds and
  appends exactly one setButtonDetails message, keyed by the button's handle (the one it
  has, or the one it is given now) and carrying the assigned value next to the other
  field. Two assignments to \<open>enabled\<close> in a row append two messages, in the order of the
  assignments.
\<close>

theorem button_setters_write_through:
  assumes "buttons s b = Some btn"
  shows "fst (set_label s b l) = Inr () \<and>
         outbox (snd (set_label s b l)) =
           outbox s @ [SetButtonDetails (fst (getButtonHandle s b))
                         \<lparr>bd_label = Some l, bd_enabled = enabled btn\<rparr>] \<and>
         buttonHandles (snd (set_label s b l)) b = Some (fst (getButtonHandle s b)) \<and>
         fst (set_enabled s b e) = Inr () \<and>
         outbox (snd (set_enabled s b e)) =
           outbox s @ [SetButtonDetails (fst (getButtonHandle s b))
                         \<lparr>bd_label = label btn, bd_enabled = e\<rparr>] \<and>
         buttonHandles (snd (set_enabled s b e)) b = Some (fst (getButtonHandle s b)) \<and>
         outbox (snd (set_enabled (snd (set_enabled s b e)) b e')) =
           outbox s @ [SetButtonDetails (fst (getButtonHandle s b))
                         \<lparr>bd_label = label btn, bd_enabled = e\<rparr>,
                       SetButtonDetails (fst (getButtonHandle s b))
                         \<lparr>bd_label = label btn, bd_enabled = e'\<rparr>]"
  using assms
  by (simp add: set_label_def set_enabled_def updateButton_def getButtonHandle_def getNewHandle_def
      send_def split: option.splits)

text \<open>
  The button that \<open>createButton\<close> makes in the initial state has handle 1; disabling
  and enabling it again sends two messages under handle 1.
\<close>

theorem button_setters_write_through_witness:
  "buttons (snd (createButton initial ''Save'')) (Obj 0) = Some \<lparr>label = Some ''Save'', enabled = True\<rparr> \<and>
   outbox (snd (set_enabled (snd (set_enabled (snd (createButton initial ''Save'')) (Obj 0) False))
              (Obj 0) True)) =
     outbox (snd (createButton initial ''Save'')) @
       [SetButtonDetails 1 \<lparr>bd_label = Some ''Save'', bd_enabled = False\<rparr>,
        SetButtonDetails 1 \<lparr>bd_label = Some ''Save'', bd_enabled = True\<rparr>] \<and>
   outbox (snd (set_label (snd (createButton initial ''Save'')) (Obj 0) ''Go'')) =
     outbox (snd (createButton initial ''Save'')) @
       [SetButtonDetails 1 \<lparr>bd_label = Some ''Go'', bd_enabled = True\<rparr>]"
  using button_setters_write_through
          [of "snd (createButton initial ''Save'')" "Obj 0" "\<lparr>label = Some ''Save'', enabled = True\<rparr>"
              "''Go''" False True]
  by (simp add: initial_def createButton_def new_ButtonImpl_def set_label_def updateButton_def
      getButtonHandle_def getNewHandle_def send_def andThen_def
      registerOnClickCallback_def getOnClickCallback_def)

text \<open>
  C2. \<open>createButton\<close> associates the new button with two handles, one after the other.
  In the initial state the label setter registers the button under handle 0 and sends
  its details under handle 0; \<open>createButton\<close> then takes handle 1 and stores it over
  handle 0.
\<close>

theorem createButton_assigns_two_handles:
  "buttonHandles (snd (set_label (snd (new_ButtonImpl initial)) (Obj 0) ''Done'')) (Obj 0)
     = Some 0 \<and>
   fst (createButton initial ''Done'') = Inr (Obj 0) \<and>
   outbox (snd (createButton initial ''Done'')) =
     [SetButtonDetails 0 \<lparr>bd_label = Some ''Done'', bd_enabled = True\<rparr>] \<and>
   buttonHandles (snd (createButton initial ''Done'')) (Obj 0) = Some 1"
  by (simp add: initial_def createButton_def new_ButtonImpl_def set_label_def updateButton_def
      getButtonHandle_def getNewHandle_def send_def andThen_def
      registerOnClickCallback_def getOnClickCallback_def)

subsection \<open>Well-scoped runs\<close>

lemma names_refl: "names R s s"
  by (simp add: names_def)

lemma names_trans:
  assumes "names R s s1" "names R s1 s2"
  shows "names R s s2"
proof -
  have "registry s x \<noteq> None \<or> ref_of x \<in> R" if "registry s2 x = Some h" for x h
  proof (cases "ref_of x \<in> R")
    case False
    with that assms(2) obtain h1 where "registry s1 x = Some h1"
      unfolding names_def by blast
    with False assms(1) show ?thesis
      unfolding names_def by blast
  qed simp
  moreover have "nextRef s2 = nextRef s" "dialogs s2 = dialogs s"
    using assms by (simp_all add: names_def)
  ultimately show ?thesis
    unfolding names_def by blast
qed

lemma names_mono: "names R s s' \<Longrightarrow> R \<subseteq> R' \<Longrightarrow> names R' s s'"
  unfolding names_def by blast

lemma names_same:
  assumes "nextRef s' = nextRef s" "dialogs s' = dialogs s" "registry s' = registry s"
  shows "names R s s'"
  using assms by (simp add: names_def)

lemma names_send: "names R s (send m s)"
  by (rule names_same) (simp_all add: send_def)

lemma names_getDialogHandle: "names {d} s (snd (getDialogHandle s d))"
  by (auto simp: names_def getDialogHandle_def getNewHandle_def registry_handles_upd registry_def
      split: option.splits obj.splits if_splits)

lemma names_getTabHandle: "names {t} s (snd (getTabHandle s t))"
  by (auto simp: names_def getTabHandle_def getNewHandle_def registry_handles_upd registry_def
      split: option.splits obj.splits if_splits)

lemma names_getButtonHandle: "names {b} s (snd (getButtonHandle s b))"
  by (auto simp: names_def getButtonHandle_def getNewHandle_def registry_handles_upd registry_def
      split: option.splits obj.splits if_splits)

lemma names_andThen:
  assumes "names R s (snd r)" and "\<And>x s1. names R s1 (snd (f x s1))"
  shows "names R s (snd (andThen r f))"
proof (cases r)
  case (Pair res s1)
  show ?thesis
  proof (cases res)
    case (Inl e)
    with Pair assms(1) show ?thesis by (simp add: andThen_def)
  next
    case (Inr x)
    have "names R s (snd (f x s1))"
      using assms(1) assms(2) [of s1 x] Pair by (auto intro: names_trans)
    with Pair Inr show ?thesis by (simp add: andThen_def)
  qed
qed

lemma names_updateButton: "names {b} s (snd (updateButton s b))"
proof -
  have "names {b} (snd (getButtonHandle s b)) (snd (updateButton s b))"
    by (simp add: updateButton_def split_beta names_refl names_send split: option.splits)
  with names_getButtonHandle show ?thesis
    by (rule names_trans)
qed

lemma names_updateTabContent: "names {t} s (snd (updateTabContent s t))"
proof -
  have "names {t} (snd (getTabHandle s t)) (snd (updateTabContent s t))"
    by (simp add: updateTabContent_def split_beta names_refl names_send split: option.splits)
  with names_getTabHandle show ?thesis
    by (rule names_trans)
qed

lemma names_TabImpl_updateContent: "names {t} s (snd (TabImpl_updateContent s t))"
  by (simp add: TabImpl_updateContent_def names_refl names_updateTabContent split: option.splits)

lemma names_forEach_updateContent: "names (set ts) s (snd (forEach_updateContent s ts))"
proof (induction ts arbitrary: s)
  case Nil
  show ?case by (simp add: names_refl)
next
  case (Cons t ts)
  show ?case
    unfolding forEach_updateContent.simps
  proof (rule names_andThen)
    show "names (set (t # ts)) s (snd (TabImpl_updateContent s t))"
      by (rule names_mono [OF names_TabImpl_updateContent]) simp
    show "names (set (t # ts)) s1 (snd (forEach_updateContent s1 ts))" for x :: unit and s1
      by (rule names_mono [OF Cons.IH]) auto
  qed
qed

lemma names_forEach_updateButton: "names (set bs) s (snd (forEach_updateButton s bs))"
proof (induction bs arbitrary: s)
  case Nil
  show ?case by (simp add: names_refl)
next
  case (Cons b bs)
  show ?case
    unfolding forEach_updateButton.simps
  proof (rule names_andThen)
    show "names (set (b # bs)) s (snd (updateButton s b))"
      by (rule names_mono [OF names_updateButton]) simp
    show "names (set (b # bs)) s1 (snd (forEach_updateButton s1 bs))" for x :: unit and s1
      by (rule names_mono [OF Cons.IH]) auto
  qed
qed

lemma names_map_getTabHandle: "names (set ts) s (snd (map_getTabHandle s ts))"
proof (induction ts arbitrary: s)
  case Nil
  show ?case by (simp add: names_refl)
next
  case (Cons t ts)
  have "names (set (t # ts)) s (snd (getTabHandle s t))"
    by (rule names_mono [OF names_getTabHandle]) simp
  moreover have "names (set (t # ts)) (snd (getTabHandle s t))
      (snd (map_getTabHandle (snd (getTabHandle s t)) ts))"
    by (rule names_mono [OF Cons.IH]) auto
  ultimately have "names (set (t # ts)) s (snd (map_getTabHandle (snd (getTabHandle s t)) ts))"
    by (rule names_trans)
  then show ?case by (simp add: split_beta)
qed

lemma names_map_getButtonHandle: "names (set bs) s (snd (map_getButtonHandle s bs))"
proof (induction bs arbitrary: s)
  case Nil
  show ?case by (simp add: names_refl)
next
  case (Cons b bs)
  have "names (set (b # bs)) s (snd (getButtonHandle s b))"
    by (rule names_mono [OF names_getButtonHandle]) simp
  moreover have "names (set (b # bs)) (snd (getButtonHandle s b))
      (snd (map_getButtonHandle (snd (getButtonHandle s b)) bs))"
    by (rule names_mono [OF Cons.IH]) auto
  ultimately have "names (set (b # bs)) s (snd (map_getButtonHandle (snd (getButtonHandle s b)) bs))"
    by (rule names_trans)
  then show ?case by (simp add: split_beta)
qed

lemma names_sync_tabs: "names (set (tabs_of c)) s (snd (sync_tabs s c))"
  by (cases c) (simp_all add: sync_tabs_def tabs_of_def names_refl names_forEach_updateContent)

lemma names_sync_customButtons:
  "names (set (custom_of cbs)) s (snd (sync_customButtons s cbs))"
  by (cases cbs)
     (simp_all add: sync_customButtons_def custom_of_def names_refl names_forEach_updateButton)

lemma names_content_details: "names (set (tabs_of c)) s (snd (content_details s c))"
  by (cases c)
     (simp_all add: content_details_def tabs_of_def names_refl names_map_getTabHandle split_beta)

lemma names_customButtons_details:
  "names (set (custom_of cbs)) s (snd (customButtons_details s cbs))"
  by (cases cbs)
     (simp_all add: customButtons_details_def custom_of_def names_refl
        names_map_getButtonHandle split_beta)

lemma names_sync_children: "names (set (children dlg)) s (snd (sync_children s dlg))"
  unfolding sync_children_def
proof (intro names_andThen)
  show "names (set (children dlg)) s (snd (sync_tabs s (content dlg)))"
    by (rule names_mono [OF names_sync_tabs]) (auto simp: children_def)
  show "names (set (children dlg)) s2 (snd (sync_customButtons s2 (customButtons dlg)))" for s2
    by (rule names_mono [OF names_sync_customButtons]) (auto simp: children_def)
  show "names (set (children dlg)) s3 (snd (updateButton s3 (okButton dlg)))" for s3
    by (rule names_mono [OF names_updateButton]) (auto simp: children_def)
  show "names (set (children dlg)) s4 (snd (updateButton s4 (cancelButton dlg)))" for s4
    by (rule names_mono [OF names_updateButton]) (auto simp: children_def)
qed

lemma names_dialog_details_of:
  "names (set (children dlg)) s (snd (dialog_details_of s dlg))"
proof -
  define s6 where "s6 = snd (getButtonHandle s (okButton dlg))"
  define s7 where "s7 = snd (getButtonHandle s6 (cancelButton dlg))"
  define s8 where "s8 = snd (content_details s7 (content dlg))"
  define s9 where "s9 = snd (customButtons_details s8 (customButtons dlg))"
  have "names (set (children dlg)) s s6"
    unfolding s6_def by (rule names_mono [OF names_getButtonHandle]) (auto simp: children_def)
  moreover have "names (set (children dlg)) s6 s7"
    unfolding s7_def by (rule names_mono [OF names_getButtonHandle]) (auto simp: children_def)
  moreover have "names (set (children dlg)) s7 s8"
    unfolding s8_def by (rule names_mono [OF names_content_details]) (auto simp: children_def)
  moreover have "names (set (children dlg)) s8 s9"
    unfolding s9_def
    by (rule names_mono [OF names_customButtons_details]) (auto simp: children_def)
  ultimately have "names (set (children dlg)) s s9"
    by (blast intro: names_trans)
  moreover have "snd (dialog_details_of s dlg) = s9"
    by (simp add: dialog_details_of_def split_beta s6_def s7_def s8_def s9_def)
  ultimately show ?thesis by simp
qed

text \<open>The references that synchronizing a dialog looks up: the dialog and its children.\<close>

lemma names_updateDialogContent:
  "names (set (d # (case dialogs s d of None \<Rightarrow> [] | Some dlg \<Rightarrow> children dlg))) s
     (snd (updateDialogContent s d))"
proof -
  let ?R = "set (d # (case dialogs s d of None \<Rightarrow> [] | Some dlg \<Rightarrow> children dlg))"
  obtain h s1 where g: "getDialogHandle s d = (h, s1)"
    by (cases "getDialogHandle s d")
  have s1: "names ?R s s1"
    using names_mono [OF names_getDialogHandle [of d s], of ?R] g by simp
  then have same: "dialogs s1 = dialogs s"
    by (simp add: names_def)
  show ?thesis
  proof (cases "dialogs s d")
    case None
    with g s1 same show ?thesis by (simp add: updateDialogContent_def)
  next
    case (Some dlg)
    have "names ?R s1 (snd (andThen (sync_children s1 dlg) (\<lambda>_ s5.
               let (dd, s9) = dialog_details_of s5 dlg
               in (Inr (), send (SetDialogDetails h dd) s9))))"
    proof (rule names_andThen)
      show "names ?R s1 (snd (sync_children s1 dlg))"
        by (rule names_mono [OF names_sync_children]) (auto simp: Some)
    next
      fix x :: unit and s5
      have "names ?R s5 (snd (dialog_details_of s5 dlg))"
        by (rule names_mono [OF names_dialog_details_of]) (auto simp: Some)
      then have "names ?R s5 (send (SetDialogDetails h (fst (dialog_details_of s5 dlg)))
                               (snd (dialog_details_of s5 dlg)))"
        using names_send names_trans by blast
      then show "names ?R s5 (snd (let (dd, s9) = dialog_details_of s5 dlg
               in (Inr (), send (SetDialogDetails h dd) s9)))"
        by (simp add: split_beta)
    qed
    with s1 have "names ?R s (snd (andThen (sync_children s1 dlg) (\<lambda>_ s5.
               let (dd, s9) = dialog_details_of s5 dlg
               in (Inr (), send (SetDialogDetails h dd) s9))))"
      by (rule names_trans)
    with g Some same show ?thesis by (simp add: updateDialogContent_def)
  qed
qed

lemma names_open_dialog:
  "names (set (d # (case dialogs s d of None \<Rightarrow> [] | Some dlg \<Rightarrow> children dlg))) s
     (snd (open_dialog s d))"
proof -
  let ?R = "set (d # (case dialogs s d of None \<Rightarrow> [] | Some dlg \<Rightarrow> children dlg))"
  obtain h s1 where g: "getDialogHandle s d = (h, s1)"
    by (cases "getDialogHandle s d")
  have s1: "names ?R s s1"
    using names_mono [OF names_getDialogHandle [of d s], of ?R] g by simp
  then have same: "dialogs s1 = dialogs s"
    by (simp add: names_def)
  have "names ?R s1
          (snd (andThen (updateDialogContent s1 d) (\<lambda>_ s2. (Inr (), send (MOpen h) s2))))"
  proof (rule names_andThen)
    show "names ?R s1 (snd (updateDialogContent s1 d))"
      using names_updateDialogContent [of d s1] by (simp add: same)
  qed (simp add: names_send)
  with s1 have "names ?R s
          (snd (andThen (updateDialogContent s1 d) (\<lambda>_ s2. (Inr (), send (MOpen h) s2))))"
    by (rule names_trans)
  with g show ?thesis by (simp add: open_dialog_def)
qed

lemma names_close_dialog: "names {d} s (close_dialog s d)"
proof -
  have "names {d} s (send (MClose (fst (getDialogHandle s d))) (snd (getDialogHandle s d)))"
    using names_getDialogHandle names_send names_trans by blast
  then show ?thesis by (simp add: close_dialog_def split_beta)
qed

lemma names_buttons_upd: "names R s (s\<lparr>buttons := bs\<rparr>)"
  by (rule names_same) simp_all

lemma names_set_label: "names {b} s (snd (set_label s b l))"
proof (cases "buttons s b")
  case None
  then show ?thesis by (simp add: set_label_def names_refl)
next
  case (Some btn)
  then show ?thesis
    using names_trans [OF names_buttons_upd names_updateButton]
    by (simp add: set_label_def)
qed

lemma names_set_enabled: "names {b} s (snd (set_enabled s b e))"
proof (cases "buttons s b")
  case None
  then show ?thesis by (simp add: set_enabled_def names_refl)
next
  case (Some btn)
  then show ?thesis
    using names_trans [OF names_buttons_upd names_updateButton]
    by (simp add: set_enabled_def)
qed

lemma names_registerOnClickCallback: "names {b} s (registerOnClickCallback s b cb)"
proof -
  have "names {b} (snd (getButtonHandle s b)) (registerOnClickCallback s b cb)"
    unfolding registerOnClickCallback_def split_beta Let_def
    by (rule names_same) simp_all
  with names_getButtonHandle show ?thesis
    by (rule names_trans)
qed

lemma names_onButtonClick: "names {} s (snd (onButtonClick s h))"
  by (cases "onClickCallbacks s h") (simp_all add: onButtonClick_def names_refl names_same)

lemma names_write_tab: "names {} s (snd (write_tab s t tb))"
  by (cases "tabs s t") (simp_all add: write_tab_def names_refl names_same)

subsection \<open>Nothing refers to an object before it is made\<close>

lemma fresh_inv_initial: "fresh_inv initial"
  by (simp add: fresh_inv_def registry_def initial_def split: obj.splits)

lemma fresh_inv_names:
  assumes "fresh_inv s" "names R s s'" "\<forall>r\<in>R. nameable s r"
  shows "fresh_inv s'"
proof -
  have n: "nameable s' = nameable s"
  proof
    fix r show "nameable s' r = nameable s r"
      using assms(2) by (cases r) (simp_all add: names_def)
  qed
  have "nameable s (ref_of x)" if "registry s' x = Some h" for x h
  proof (cases "ref_of x \<in> R")
    case True
    with assms(3) show ?thesis by blast
  next
    case False
    with that assms(2) obtain h0 where "registry s x = Some h0"
      unfolding names_def by blast
    with assms(1) show ?thesis
      unfolding fresh_inv_def by blast
  qed
  moreover have "list_all (nameable s) (children dlg)" if "dialogs s' d = Some dlg" for d dlg
    using that assms(1,2) unfolding fresh_inv_def names_def by simp
  ultimately show ?thesis
    unfolding fresh_inv_def n by blast
qed

lemma fresh_inv_nextRef:
  assumes "fresh_inv s" "nextRef s \<le> nextRef s'" "registry s' = registry s" "dialogs s' = dialogs s"
  shows "fresh_inv s'"
proof -
  have "nameable s' r" if "nameable s r" for r
    using assms(2) that by (rule nameable_mono)
  then have "list_all (nameable s') rs" if "list_all (nameable s) rs" for rs
    using that by (simp add: list_all_iff)
  then show ?thesis
    using assms(1,3,4) \<open>\<And>r. nameable s r \<Longrightarrow> nameable s' r\<close>
    unfolding fresh_inv_def by simp
qed

lemma fresh_inv_write_dialog:
  assumes "fresh_inv s" "list_all (nameable s) (children dlg)"
  shows "fresh_inv (snd (write_dialog s d dlg))"
proof (cases "dialogs s d")
  case None
  with assms(1) show ?thesis by (simp add: write_dialog_def)
next
  case (Some old)
  have "nameable (s\<lparr>dialogs := (dialogs s)(d \<mapsto> dlg)\<rparr>) = nameable s"
  proof
    fix r show "nameable (s\<lparr>dialogs := (dialogs s)(d \<mapsto> dlg)\<rparr>) r = nameable s r"
      by (cases r) simp_all
  qed
  then have "fresh_inv (s\<lparr>dialogs := (dialogs s)(d \<mapsto> dlg)\<rparr>)"
    using assms unfolding fresh_inv_def by simp
  with Some show ?thesis by (simp add: write_dialog_def)
qed

lemma fresh_inv_createButton:
  assumes "fresh_inv s"
  shows "fresh_inv (snd (createButton s l))"
proof -
  define s' where "s' = snd (createButton s l)"
  note shape = createButton_shape [of s l, folded s'_def]
  note keeps = createButton_keeps [of s l, folded s'_def]
  have mono: "nameable s' r" if "nameable s r" for r
    using that shape by (cases r) simp_all
  have new: "nameable s' (Obj (nextRef s))"
    using shape by simp
  have "nameable s' (ref_of x)" if "registry s' x = Some h" for x h
  proof (cases x)
    case (Dialog d)
    with that shape have "registry s x = Some h" by (simp add: registry_def)
    with assms Dialog show ?thesis unfolding fresh_inv_def using mono by blast
  next
    case (Tab t)
    with that shape have "registry s x = Some h" by (simp add: registry_def)
    with assms Tab show ?thesis unfolding fresh_inv_def using mono by blast
  next
    case (Button r)
    show ?thesis
    proof (cases "r = Obj (nextRef s)")
      case True
      with Button new show ?thesis by simp
    next
      case False
      with that Button keeps have "registry s x = Some h" by (simp add: registry_def)
      with assms show ?thesis unfolding fresh_inv_def using mono by blast
    qed
  qed
  moreover have "list_all (nameable s') (children dlg)" if "dialogs s' d = Some dlg" for d dlg
  proof -
    have "list_all (nameable s) (children dlg)"
      using that shape assms unfolding fresh_inv_def by simp
    then show ?thesis using mono by (simp add: list_all_iff)
  qed
  ultimately show ?thesis
    unfolding fresh_inv_def s'_def by blast
qed

lemma fresh_inv_createTab:
  assumes "fresh_inv s"
  shows "fresh_inv (snd (createTab s ttl))"
proof -
  define s' where "s' = snd (createTab s ttl)"
  have shape: "nextRef s' = nextRef s + 1" "dialogs s' = dialogs s"
    "dialogHandles s' = dialogHandles s" "buttonHandles s' = buttonHandles s"
    "\<And>r. r \<noteq> Obj (nextRef s) \<Longrightarrow> tabHandles s' r = tabHandles s r"
    by (simp_all add: s'_def createTab_def getNewHandle_def Let_def)
  have mono: "nameable s' r" if "nameable s r" for r
    using that shape(1) by (cases r) simp_all
  have new: "nameable s' (Obj (nextRef s))"
    using shape(1) by simp
  have "nameable s' (ref_of x)" if "registry s' x = Some h" for x h
  proof (cases x)
    case (Dialog d)
    with that shape have "registry s x = Some h" by (simp add: registry_def)
    with assms Dialog show ?thesis unfolding fresh_inv_def using mono by blast
  next
    case (Button b)
    with that shape have "registry s x = Some h" by (simp add: registry_def)
    with assms Button show ?thesis unfolding fresh_inv_def using mono by blast
  next
    case (Tab r)
    show ?thesis
    proof (cases "r = Obj (nextRef s)")
      case True
      with Tab new show ?thesis by simp
    next
      case False
      with that Tab shape(5) have "registry s x = Some h" by (simp add: registry_def)
      with assms show ?thesis unfolding fresh_inv_def using mono by blast
    qed
  qed
  moreover have "list_all (nameable s') (children dlg)" if "dialogs s' d = Some dlg" for d dlg
  proof -
    have "list_all (nameable s) (children dlg)"
      using that shape(2) assms unfolding fresh_inv_def by simp
    then show ?thesis using mono by (simp add: list_all_iff)
  qed
  ultimately show ?thesis
    unfolding fresh_inv_def s'_def by blast
qed

lemma fresh_inv_createDialog:
  assumes "fresh_inv s"
  shows "fresh_inv (snd (createDialog s ttl))"
proof -
  define d where "d = Obj (nextRef s)"
  define s0 where "s0 = s\<lparr>nextRef := nextRef s + 1\<rparr>"
  define s1 where "s1 = snd (createButton s0 ''Done'')"
  define s2 where "s2 = snd (createButton s1 ''Cancel'')"
  define dlg where "dlg = \<lparr>title = ttl, content = NoContent, okButton = Obj (nextRef s + 1),
               cancelButton = Obj (nextRef s + 2), customButtons = None\<rparr>"
  define s3 where "s3 = s2\<lparr>dialogs := (dialogs s2)(d \<mapsto> dlg)\<rparr>"
  define s4 where "s4 = s3\<lparr>currentHandle := Suc (currentHandle s3),
          dialogHandles := (dialogHandles s3)(d \<mapsto> currentHandle s3)\<rparr>"
  have ok: "createButton s0 ''Done'' = (Inr (Obj (nextRef s + 1)), s1)"
    using createButton_shape [of s0 "''Done''"] by (simp add: s1_def s0_def prod_eq_iff)
  have n1: "nextRef s1 = nextRef s + 2"
    using createButton_shape [of s0 "''Done''"] by (simp add: s1_def s0_def)
  have n2: "nextRef s2 = nextRef s + 3"
    using createButton_shape [of s1 "''Cancel''"] n1 by (simp add: s2_def)
  have cancel: "createButton s1 ''Cancel'' = (Inr (Obj (nextRef s + 2)), s2)"
    using createButton_shape [of s1 "''Cancel''"] n1 by (simp add: s2_def prod_eq_iff)
  have res: "snd (createDialog s ttl) = s4"
    using ok cancel
    by (simp add: createDialog_def localize_def andThen_def getNewHandle_def Let_def
        s0_def s4_def s3_def dlg_def d_def)
  have "fresh_inv s0"
    using assms unfolding s0_def by (rule fresh_inv_nextRef) simp_all
  then have "fresh_inv s1"
    unfolding s1_def by (rule fresh_inv_createButton)
  then have f2: "fresh_inv s2"
    unfolding s2_def by (rule fresh_inv_createButton)
  have n4: "nameable s4 = nameable s2"
  proof
    fix r show "nameable s4 r = nameable s2 r"
      by (cases r) (simp_all add: s4_def s3_def)
  qed
  have "nameable s4 (ref_of x)" if "registry s4 x = Some h" for x h
  proof (cases "x = Dialog d")
    case True
    then show ?thesis by (simp add: n4 n2 d_def)
  next
    case False
    with that have "registry s2 x = Some h"
      by (auto simp: s4_def s3_def registry_handles_upd registry_def split: obj.splits if_splits)
    with f2 show ?thesis
      unfolding fresh_inv_def n4 by blast
  qed
  moreover have "list_all (nameable s4) (children dlg')" if "dialogs s4 d' = Some dlg'" for d' dlg'
  proof (cases "d' = d")
    case True
    with that have "dlg' = dlg" by (simp add: s4_def s3_def)
    then show ?thesis
      by (simp add: n4 n2 dlg_def children_def tabs_of_def custom_of_def)
  next
    case False
    with that have "dialogs s2 d' = Some dlg'" by (simp add: s4_def s3_def)
    with f2 show ?thesis
      unfolding fresh_inv_def n4 by blast
  qed
  ultimately show ?thesis
    unfolding fresh_inv_def res by blast
qed

lemma dialog_and_children_nameable:
  assumes "fresh_inv s" "nameable s d"
  shows "\<forall>r\<in>set (d # (case dialogs s d of None \<Rightarrow> [] | Some dlg \<Rightarrow> children dlg)).
           nameable s r"
proof (cases "dialogs s d")
  case None
  with assms(2) show ?thesis by simp
next
  case (Some dlg)
  with assms(1) have "list_all (nameable s) (children dlg)"
    unfolding fresh_inv_def by blast
  with Some assms(2) show ?thesis by (simp add: list_all_iff)
qed

lemma fresh_inv_step:
  assumes "fresh_inv s" "scoped s op"
  shows "fresh_inv (step op s)"
proof (cases op)
  case (CreateDialog ttl)
  with assms show ?thesis by (simp add: fresh_inv_createDialog)
next
  case (CreateTab ttl)
  with assms show ?thesis by (simp add: fresh_inv_createTab)
next
  case (CreateButton l)
  with assms show ?thesis by (simp add: fresh_inv_createButton)
next
  case (SetLabel b l)
  with assms show ?thesis
    using fresh_inv_names [OF assms(1) names_set_label [of b s l]] by simp
next
  case (SetEnabled b e)
  with assms show ?thesis
    using fresh_inv_names [OF assms(1) names_set_enabled [of b s e]] by simp
next
  case (WriteDialog d dlg)
  with assms show ?thesis by (simp add: fresh_inv_write_dialog)
next
  case (WriteTab t tb)
  with assms show ?thesis
    using fresh_inv_names [OF assms(1) names_write_tab [of s t tb]] by simp
next
  case (Open d)
  have "\<forall>r\<in>set (d # (case dialogs s d of None \<Rightarrow> [] | Some dlg \<Rightarrow> children dlg)).
          nameable s r"
    using assms Open by (intro dialog_and_children_nameable) simp_all
  with Open show ?thesis
    using fresh_inv_names [OF assms(1) names_open_dialog [of d s]] by simp
next
  case (Close d)
  with assms show ?thesis
    using fresh_inv_names [OF assms(1) names_close_dialog [of d s]] by simp
next
  case (UpdateDialogContent d)
  have "\<forall>r\<in>set (d # (case dialogs s d of None \<Rightarrow> [] | Some dlg \<Rightarrow> children dlg)).
          nameable s r"
    using assms UpdateDialogContent by (intro dialog_and_children_nameable) simp_all
  with UpdateDialogContent show ?thesis
    using fresh_inv_names [OF assms(1) names_updateDialogContent [of d s]] by simp
next
  case (UpdateTabContent t)
  with assms show ?thesis
    using fresh_inv_names [OF assms(1) names_updateTabContent [of t s]] by simp
next
  case (UpdateButton b)
  with assms show ?thesis
    using fresh_inv_names [OF assms(1) names_updateButton [of b s]] by simp
next
  case (RegisterOnClickCallback b cb)
  with assms have "nameable s b" by (cases cb) simp
  with RegisterOnClickCallback show ?thesis
    using fresh_inv_names [OF assms(1) names_registerOnClickCallback [of b s cb]] by simp
next
  case (OnButtonClick h)
  with assms show ?thesis
    using fresh_inv_names [OF assms(1) names_onButtonClick [of s h]] by simp
qed

lemma fresh_inv_exec:
  assumes "fresh_inv s" "well_scoped s ops"
  shows "fresh_inv (exec ops s)"
  using assms
proof (induction ops arbitrary: s)
  case Nil
  then show ?case by (simp add: exec_def)
next
  case (Cons op ops)
  have "fresh_inv (step op s)"
    using Cons.prems by (simp add: fresh_inv_step)
  then have "fresh_inv (exec ops (step op s))"
    using Cons.prems by (intro Cons.IH) simp_all
  then show ?case by (simp add: exec_def)
qed

text \<open>
  In a state that a well-scoped run reaches, the object that \<open>new\<close> returns next is in
  no registry.
\<close>

lemma new_object_unregistered:
  assumes "well_scoped initial ops"
  shows "buttonHandles (exec ops initial) (Obj (nextRef (exec ops initial))) = None"
proof -
  have "fresh_inv (exec ops initial)"
    using fresh_inv_initial assms by (rule fresh_inv_exec)
  then have "nameable (exec ops initial) (ref_of (Button (Obj (nextRef (exec ops initial)))))"
    if "registry (exec ops initial) (Button (Obj (nextRef (exec ops initial)))) = Some h" for h
    using that unfolding fresh_inv_def by blast
  then show ?thesis
    by (cases "buttonHandles (exec ops initial) (Obj (nextRef (exec ops initial)))")
       (auto simp: registry_def)
qed

subsection \<open>The handle of the first message of a new button\<close>

lemma createButton_fresh:
  assumes "buttonHandles s (Obj (nextRef s)) = None"
  shows "outbox (snd (createButton s l)) =
           outbox s @ [SetButtonDetails (currentHandle s) \<lparr>bd_label = Some l, bd_enabled = True\<rparr>]"
    and "buttonHandles (snd (createButton s l)) (Obj (nextRef s)) = Some (currentHandle s + 1)"
    and "onClickCallbacks (snd (createButton s l)) =
           (onClickCallbacks s)(currentHandle s + 1 \<mapsto> FireOnClick (Obj (nextRef s)))"
    and "currentHandle (snd (createButton s l)) = currentHandle s + 2"
  using assms
  by (simp_all add: createButton_def new_ButtonImpl_def set_label_def updateButton_def
      getButtonHandle_def getNewHandle_def send_def andThen_def Let_def
      registerOnClickCallback_def getOnClickCallback_def)

lemma updateButton_registered:
  assumes "buttonHandles s b = Some h" and "buttons s b = Some btn"
  shows "outbox (snd (updateButton s b)) =
           outbox s @ [SetButtonDetails h \<lparr>bd_label = label btn, bd_enabled = enabled btn\<rparr>]"
  using assms by (simp add: updateButton_def getButtonHandle_def send_def)

lemma registerOnClickCallback_registered:
  assumes "buttonHandles s b = Some h"
  shows "onClickCallbacks (registerOnClickCallback s b cb) h = Some cb"
  using assms by (simp add: registerOnClickCallback_def getButtonHandle_def)

text \<open>
  C4. In every state that a well-scoped run reaches from the initial state,
  \<open>createButton\<close> succeeds and sends exactly one setButtonDetails message, with the label
  and \<open>enabled = true\<close>. The handle \<open>hm\<close> of that message is the value of the counter
  before the call. The handle \<open>h\<close> that the button registry holds for the button when
  \<open>createButton\<close> returns, and under which the click callback of the button is
  registered, is the next one: \<open>hm < h\<close>. After any further run the registry still holds
  \<open>h\<close> for the button; \<open>updateButton\<close> sends the button's details under \<open>h\<close>; a
  callback registered for the button goes under \<open>h\<close>, and \<open>h\<close> has a dispatch entry;
  \<open>hm\<close> has no dispatch entry, so that a click on \<open>hm\<close> reaches no callback and raises.
\<close>

theorem createButton_first_message_handle:
  assumes "well_scoped initial ops"
  shows "let s = exec ops initial; b = Obj (nextRef s); hm = currentHandle s; h = hm + 1;
             s' = snd (createButton s l)
         in fst (createButton s l) = Inr b \<and>
            outbox s' = outbox s @ [SetButtonDetails hm \<lparr>bd_label = Some l, bd_enabled = True\<rparr>] \<and>
            buttonHandles s' b = Some h \<and>
            onClickCallbacks s' h = Some (FireOnClick b) \<and>
            hm < h \<and>
            (\<forall>ops'.
               buttonHandles (exec ops' s') b = Some h \<and>
               (\<exists>bd. outbox (snd (updateButton (exec ops' s') b)) =
                       outbox (exec ops' s') @ [SetButtonDetails h bd]) \<and>
               (\<forall>cb. onClickCallbacks (registerOnClickCallback (exec ops' s') b cb) h = Some cb) \<and>
               onClickCallbacks (exec ops' s') h \<noteq> None \<and>
               onClickCallbacks (exec ops' s') hm = None \<and>
               fst (onButtonClick (exec ops' s') hm) = Inl TypeError)"
proof -
  define s where "s = exec ops initial"
  define b where "b = Obj (nextRef s)"
  define hm where "hm = currentHandle s"
  define h where "h = hm + 1"
  define s' where "s' = snd (createButton s l)"
  have inv: "handles_inv s"
    by (simp add: s_def handles_inv_exec)
  have fresh: "buttonHandles s b = None"
    using new_object_unregistered [OF assms] by (simp add: s_def b_def)
  note F = createButton_fresh [OF fresh [unfolded b_def], of l, folded s'_def b_def hm_def]
  have res: "fst (createButton s l) = Inr b"
    using createButton_shape [of s l] by (simp add: b_def)
  have out: "outbox s' = outbox s @ [SetButtonDetails hm \<lparr>bd_label = Some l, bd_enabled = True\<rparr>]"
    using F(1) .
  have reg: "buttonHandles s' b = Some h"
    using F(2) by (simp add: h_def)
  have cb: "onClickCallbacks s' h = Some (FireOnClick b)"
    using F(3) by (simp add: h_def)
  have lt: "hm < h"
    by (simp add: h_def)
  have no_cb: "onClickCallbacks s' hm = None"
  proof -
    have "onClickCallbacks s hm = None"
      using inv unfolding handles_inv_def hm_def
      by (cases "onClickCallbacks s (currentHandle s)") auto
    then show ?thesis
      using F(3) by (simp add: h_def)
  qed
  have below: "hm < currentHandle s'"
    using F(4) by simp
  have gone: "registry s' x \<noteq> Some hm" for x
  proof
    assume a: "registry s' x = Some hm"
    show False
    proof (cases "x = Button b")
      case True
      with a reg lt show False by (simp add: registry_def)
    next
      case False
      have "registry s' x = registry s x"
        using False createButton_shape [of s l] createButton_keeps [of s l]
        by (cases x) (auto simp: registry_def s'_def b_def)
      with a have "hm < currentHandle s"
        using inv unfolding handles_inv_def by metis
      then show False by (simp add: hm_def)
    qed
  qed
  have held: "nameable s' b" and present: "buttons s' b \<noteq> None"
    using createButton_shape [of s l] by (simp_all add: s'_def b_def)
  have later: "buttonHandles (exec ops' s') b = Some h \<and>
         (\<exists>bd. outbox (snd (updateButton (exec ops' s') b)) =
                 outbox (exec ops' s') @ [SetButtonDetails h bd]) \<and>
         (\<forall>cb. onClickCallbacks (registerOnClickCallback (exec ops' s') b cb) h = Some cb) \<and>
         onClickCallbacks (exec ops' s') h \<noteq> None \<and>
         onClickCallbacks (exec ops' s') hm = None \<and>
         fst (onButtonClick (exec ops' s') hm) = Inl TypeError" for ops'
  proof -
    note E = evolvesD [OF evolves_exec [of s' ops']]
    have reg': "buttonHandles (exec ops' s') b = Some h"
      using held reg by (rule E(5))
    have "buttons (exec ops' s') b \<noteq> None"
      using present by (rule E(8))
    then obtain btn where "buttons (exec ops' s') b = Some btn"
      by blast
    with reg' have upd: "\<exists>bd. outbox (snd (updateButton (exec ops' s') b)) =
                 outbox (exec ops' s') @ [SetButtonDetails h bd]"
      using updateButton_registered by blast
    have stays: "onClickCallbacks (exec ops' s') h \<noteq> None"
      using cb E(10) [of h] by simp
    have dead: "onClickCallbacks (exec ops' s') hm = None"
      using below gone no_cb by (intro E(11)) simp_all
    then have "fst (onButtonClick (exec ops' s') hm) = Inl TypeError"
      by (simp add: onButtonClick_def)
    with reg' upd stays dead show ?thesis
      using registerOnClickCallback_registered [OF reg'] by blast
  qed
  show ?thesis
    unfolding Let_def s_def [symmetric] b_def [symmetric] hm_def [symmetric]
      h_def [symmetric] s'_def [symmetric]
    using res out reg cb lt later by blast
qed

text \<open>
  After \<open>updateButton(undefined)\<close>, which registers \<open>undefined\<close> under handle 0 and
  raises, \<open>createButton\<close> sends the first message of the new button under handle 1 and
  stores handle 2; after the button is disabled, handle 1 still has no dispatch entry.
\<close>

theorem createButton_first_message_handle_witness:
  "well_scoped initial [UpdateButton Undefined] \<and>
   buttonHandles (exec [UpdateButton Undefined] initial) Undefined = Some 0 \<and>
   fst (createButton (exec [UpdateButton Undefined] initial) ''Done'') = Inr (Obj 0) \<and>
   outbox (snd (createButton (exec [UpdateButton Undefined] initial) ''Done'')) =
     [SetButtonDetails 1 \<lparr>bd_label = Some ''Done'', bd_enabled = True\<rparr>] \<and>
   buttonHandles (snd (createButton (exec [UpdateButton Undefined] initial) ''Done'')) (Obj 0)
     = Some 2 \<and>
   onClickCallbacks (snd (createButton (exec [UpdateButton Undefined] initial) ''Done'')) 2
     = Some (FireOnClick (Obj 0)) \<and>
   onClickCallbacks
     (exec [SetEnabled (Obj 0) False]
        (snd (createButton (exec [UpdateButton Undefined] initial) ''Done''))) 1 = None \<and>
   outbox (exec [SetEnabled (Obj 0) False]
        (snd (createButton (exec [UpdateButton Undefined] initial) ''Done''))) =
     [SetButtonDetails 1 \<lparr>bd_label = Some ''Done'', bd_enabled = True\<rparr>,
      SetButtonDetails 2 \<lparr>bd_label = Some ''Done'', bd_enabled = False\<rparr>]"
  using createButton_first_message_handle [of "[UpdateButton Undefined]" "''Done''"]
  by (simp add: exec_def initial_def createButton_def new_ButtonImpl_def set_label_def
      set_enabled_def updateButton_def getButtonHandle_def getNewHandle_def send_def andThen_def
      registerOnClickCallback_def getOnClickCallback_def)

subsection \<open>Dialog creation\<close>

text \<open>
  C10. \<open>createDialog\<close> succeeds in every state. The dialog it returns has the given
  title, an ok button labelled Done and a cancel button labelled Cancel, both enabled,
  and the dialog is in the dialog registry when \<open>createDialog\<close> returns.
\<close>

theorem createDialog_defaults:
  "fst (createDialog s ttl) = Inr (Obj (nextRef s)) \<and>
   dialogs (snd (createDialog s ttl)) (Obj (nextRef s)) =
     Some \<lparr>title = ttl, content = NoContent, okButton = Obj (nextRef s + 1),
           cancelButton = Obj (nextRef s + 2), customButtons = None\<rparr> \<and>
   buttons (snd (createDialog s ttl)) (Obj (nextRef s + 1)) =
     Some \<lparr>label = Some ''Done'', enabled = True\<rparr> \<and>
   buttons (snd (createDialog s ttl)) (Obj (nextRef s + 2)) =
     Some \<lparr>label = Some ''Cancel'', enabled = True\<rparr> \<and>
   dialogHandles (snd (createDialog s ttl)) (Obj (nextRef s)) \<noteq> None"
proof -
  define s0 where "s0 = s\<lparr>nextRef := nextRef s + 1\<rparr>"
  define s1 where "s1 = snd (createButton s0 ''Done'')"
  define s2 where "s2 = snd (createButton s1 ''Cancel'')"
  have ok: "createButton s0 ''Done'' = (Inr (Obj (nextRef s + 1)), s1)"
    using createButton_shape [of s0 "''Done''"] by (simp add: s1_def s0_def prod_eq_iff)
  have n1: "nextRef s1 = nextRef s + 2"
    using createButton_shape [of s0 "''Done''"] by (simp add: s1_def s0_def)
  have cancel: "createButton s1 ''Cancel'' = (Inr (Obj (nextRef s + 2)), s2)"
    using createButton_shape [of s1 "''Cancel''"] n1 by (simp add: s2_def prod_eq_iff)
  have b2: "buttons s2 =
      (buttons s0)(Obj (nextRef s + 1) \<mapsto> \<lparr>label = Some ''Done'', enabled = True\<rparr>,
                   Obj (nextRef s + 2) \<mapsto> \<lparr>label = Some ''Cancel'', enabled = True\<rparr>)"
    using createButton_shape [of s0 "''Done''"] createButton_shape [of s1 "''Cancel''"] n1
    by (simp add: s2_def s1_def s0_def)
  have res: "createDialog s ttl =
     (Inr (Obj (nextRef s)),
      s2\<lparr>dialogs := (dialogs s2)(Obj (nextRef s) \<mapsto>
              \<lparr>title = ttl, content = NoContent, okButton = Obj (nextRef s + 1),
               cancelButton = Obj (nextRef s + 2), customButtons = None\<rparr>),
          currentHandle := currentHandle s2 + 1,
          dialogHandles := (dialogHandles s2)(Obj (nextRef s) \<mapsto> currentHandle s2)\<rparr>)"
    using ok cancel
    by (simp add: createDialog_def localize_def andThen_def getNewHandle_def Let_def s0_def)
  show ?thesis
    by (simp add: res b2)
qed

subsection \<open>When synchronization fails\<close>

lemma fst_updateButton:
  "fst (updateButton s b) = (if buttons s b = None then Inl TypeError else Inr ())"
  by (simp add: updateButton_def getButtonHandle_def getNewHandle_def split: option.splits)

lemma fst_TabImpl_updateContent:
  "fst (TabImpl_updateContent s t) = (if tabs s t = None then Inl TypeError else Inr ())"
  by (simp add: TabImpl_updateContent_def updateTabContent_def getTabHandle_def getNewHandle_def
      split: option.splits)

lemma fst_andThen:
  "fst (andThen r f) = (case fst r of Inl e \<Rightarrow> Inl e | Inr x \<Rightarrow> fst (f x (snd r)))"
  by (simp add: andThen_def split: prod.splits sum.splits)

lemma fst_forEach_updateButton:
  "fst (forEach_updateButton s bs) =
     (if list_ex (\<lambda>b. buttons s b = None) bs then Inl TypeError else Inr ())"
proof (induction bs arbitrary: s)
  case Nil
  show ?case by simp
next
  case (Cons b bs)
  have "buttons (snd (updateButton s b)) = buttons s"
    using child_sync_updateButton [of s b] by (simp add: child_sync_def)
  then show ?case
    by (simp add: fst_andThen fst_updateButton Cons.IH)
qed

lemma fst_forEach_updateContent:
  "fst (forEach_updateContent s ts) =
     (if list_ex (\<lambda>t. tabs s t = None) ts then Inl TypeError else Inr ())"
proof (induction ts arbitrary: s)
  case Nil
  show ?case by simp
next
  case (Cons t ts)
  have "tabs (snd (TabImpl_updateContent s t)) = tabs s"
    using child_sync_TabImpl_updateContent [of s t] by (simp add: child_sync_def)
  then show ?case
    by (simp add: fst_andThen fst_TabImpl_updateContent Cons.IH)
qed

lemma fst_sync_tabs:
  "fst (sync_tabs s c) =
     (if list_ex (\<lambda>t. tabs s t = None) (tabs_of c) then Inl TypeError else Inr ())"
  by (simp add: sync_tabs_def tabs_of_def fst_forEach_updateContent split: content.splits)

lemma fst_sync_customButtons:
  "fst (sync_customButtons s cbs) =
     (if list_ex (\<lambda>b. buttons s b = None) (custom_of cbs) then Inl TypeError else Inr ())"
  by (simp add: sync_customButtons_def custom_of_def fst_forEach_updateButton split: option.splits)

lemma fst_sync_children:
  "fst (sync_children s dlg) = (if child_missing s dlg then Inl TypeError else Inr ())"
proof -
  define s2 where "s2 = snd (sync_tabs s (content dlg))"
  define s3 where "s3 = snd (sync_customButtons s2 (customButtons dlg))"
  define s4 where "s4 = snd (updateButton s3 (okButton dlg))"
  have "child_sync s s2" "child_sync s2 s3" "child_sync s3 s4"
    by (simp_all add: s2_def s3_def s4_def child_sync_sync_tabs child_sync_sync_customButtons
        child_sync_updateButton)
  then have same: "buttons s2 = buttons s" "buttons s3 = buttons s" "buttons s4 = buttons s"
    by (simp_all add: child_sync_def)
  show ?thesis
    unfolding sync_children_def
    by (simp add: fst_andThen fst_sync_tabs fst_sync_customButtons fst_updateButton
        s2_def [symmetric] s3_def [symmetric] s4_def [symmetric] same child_missing_def)
qed

text \<open>
  C9. When a child of the dialog is undefined, so that synchronizing it raises,
  \<open>updateDialogContent\<close> ends with that error, and the messages it has sent up to then
  contain no setDialogDetails: the parent's details are not sent without the children's.
\<close>

theorem failed_child_aborts_before_parent:
  assumes "dialogs s d = Some dlg" and "child_missing s dlg"
  shows "fst (updateDialogContent s d) = Inl TypeError \<and>
         (\<exists>ms. outbox (snd (updateDialogContent s d)) = outbox s @ ms \<and>
               \<not> list_ex is_SetDialogDetails ms)"
proof -
  obtain h s1 where g: "getDialogHandle s d = (h, s1)"
    by (cases "getDialogHandle s d")
  have s1: "child_sync s s1"
    using child_sync_getDialogHandle [of s d] g by simp
  then have dlg: "dialogs s1 d = Some dlg" and miss: "child_missing s1 dlg"
    using assms by (simp_all add: child_sync_def child_missing_def)
  obtain r s5 where c: "sync_children s1 dlg = (r, s5)"
    by (cases "sync_children s1 dlg")
  have r: "r = Inl TypeError"
    using fst_sync_children [of s1 dlg] miss c by simp
  have "child_sync s1 s5"
    using child_sync_sync_children [of s1 dlg] c by simp
  with s1 have "child_sync s s5"
    by (rule child_sync_trans)
  moreover have "updateDialogContent s d = (Inl TypeError, s5)"
    by (simp add: updateDialogContent_def g dlg c r andThen_def)
  ultimately show ?thesis
    by (simp add: child_sync_def)
qed

text \<open>
  A new dialog whose custom buttons are its ok button and \<open>undefined\<close>: the ok
  button's details are sent, then the error is raised, and nothing else is sent.
\<close>

theorem failed_child_aborts_before_parent_witness:
  "dialogs (snd (createDialog initial ''Connect'')) (Obj 0) =
      Some \<lparr>title = ''Connect'', content = NoContent, okButton = Obj 1, cancelButton = Obj 2,
            customButtons = None\<rparr> \<and>
   child_missing
     (snd (write_dialog (snd (createDialog initial ''Connect'')) (Obj 0)
        \<lparr>title = ''Connect'', content = NoContent, okButton = Obj 1, cancelButton = Obj 2,
            customButtons = Some [Obj 1, Undefined]\<rparr>))
     \<lparr>title = ''Connect'', content = NoContent, okButton = Obj 1, cancelButton = Obj 2,
            customButtons = Some [Obj 1, Undefined]\<rparr> \<and>
   fst (updateDialogContent
     (snd (write_dialog (snd (createDialog initial ''Connect'')) (Obj 0)
        \<lparr>title = ''Connect'', content = NoContent, okButton = Obj 1, cancelButton = Obj 2,
            customButtons = Some [Obj 1, Undefined]\<rparr>)) (Obj 0)) = Inl TypeError \<and>
   outbox (snd (updateDialogContent
     (snd (write_dialog (snd (createDialog initial ''Connect'')) (Obj 0)
        \<lparr>title = ''Connect'', content = NoContent, okButton = Obj 1, cancelButton = Obj 2,
            customButtons = Some [Obj 1, Undefined]\<rparr>)) (Obj 0))) =
     outbox (snd (createDialog initial ''Connect'')) @
       [SetButtonDetails 1 \<lparr>bd_label = Some ''Done'', bd_enabled = True\<rparr>]"
  using failed_child_aborts_before_parent
     [of "snd (write_dialog (snd (createDialog initial ''Connect'')) (Obj 0)
        \<lparr>title = ''Connect'', content = NoContent, okButton = Obj 1, cancelButton = Obj 2,
            customButtons = Some [Obj 1, Undefined]\<rparr>)" "Obj 0"
        "\<lparr>title = ''Connect'', content = NoContent, okButton = Obj 1, cancelButton = Obj 2,
            customButtons = Some [Obj 1, Undefined]\<rparr>"]
  by (simp add: initial_def createDialog_def createButton_def new_ButtonImpl_def set_label_def
      updateButton_def getButtonHandle_def getNewHandle_def getDialogHandle_def send_def andThen_def
      registerOnClickCallback_def getOnClickCallback_def localize_def write_dialog_def
      child_missing_def tabs_of_def custom_of_def updateDialogContent_def sync_children_def
      sync_tabs_def sync_customButtons_def Let_def)

subsection \<open>The messages of a successful synchronization\<close>

lemma map_le_the:
  "m \<subseteq>\<^sub>m m' \<Longrightarrow> m r \<noteq> None \<Longrightarrow> m' r = m r"
  by (metis domIff map_le_def)

lemma tab_message_stable:
  assumes "child_sync s s'" "tabHandles s t \<noteq> None"
  shows "tab_message s' t = tab_message s t" "tabHandles s' t \<noteq> None"
  using assms map_le_the [of "tabHandles s" "tabHandles s'" t]
  by (simp_all add: tab_message_def child_sync_def)

lemma button_message_stable:
  assumes "child_sync s s'" "buttonHandles s b \<noteq> None"
  shows "button_message s' b = button_message s b" "buttonHandles s' b \<noteq> None"
  using assms map_le_the [of "buttonHandles s" "buttonHandles s'" b]
  by (simp_all add: button_message_def child_sync_def)

lemma updateButton_exact:
  assumes "buttons s b \<noteq> None"
  shows "outbox (snd (updateButton s b)) = outbox s @ [button_message (snd (updateButton s b)) b]"
    and "buttonHandles (snd (updateButton s b)) b \<noteq> None"
  using assms
  by (auto simp: updateButton_def getButtonHandle_def getNewHandle_def send_def
      button_message_def split: option.splits)

lemma TabImpl_updateContent_exact:
  assumes "tabs s t \<noteq> None"
  shows "outbox (snd (TabImpl_updateContent s t)) =
           outbox s @ [tab_message (snd (TabImpl_updateContent s t)) t]"
    and "tabHandles (snd (TabImpl_updateContent s t)) t \<noteq> None"
  using assms
  by (auto simp: TabImpl_updateContent_def updateTabContent_def getTabHandle_def getNewHandle_def
      send_def tab_message_def split: option.splits)

lemma forEach_updateButton_exact:
  assumes "\<not> list_ex (\<lambda>b. buttons s b = None) bs"
  shows "outbox (snd (forEach_updateButton s bs)) =
           outbox s @ map (button_message (snd (forEach_updateButton s bs))) bs \<and>
         (\<forall>b\<in>set bs. buttonHandles (snd (forEach_updateButton s bs)) b \<noteq> None)"
  using assms
proof (induction bs arbitrary: s)
  case Nil
  show ?case by simp
next
  case (Cons b bs)
  define s1 where "s1 = snd (updateButton s b)"
  define s' where "s' = snd (forEach_updateButton s1 bs)"
  have b: "buttons s b \<noteq> None"
    using Cons.prems by simp
  have same: "buttons s1 = buttons s"
    using child_sync_updateButton [of s b] by (simp add: child_sync_def s1_def)
  have run: "forEach_updateButton s (b # bs) = forEach_updateButton s1 bs"
    using fst_updateButton [of s b] b
    by (cases "updateButton s b") (simp add: andThen_def s1_def)
  have o1: "outbox s1 = outbox s @ [button_message s1 b]" and h1: "buttonHandles s1 b \<noteq> None"
    using updateButton_exact [OF b] by (simp_all add: s1_def)
  have "\<not> list_ex (\<lambda>b. buttons s1 b = None) bs"
    using Cons.prems same by simp
  then have ih: "outbox s' = outbox s1 @ map (button_message s') bs"
    "\<forall>b\<in>set bs. buttonHandles s' b \<noteq> None"
    using Cons.IH [of s1] by (simp_all add: s'_def)
  have "child_sync s1 s'"
    by (simp add: s'_def child_sync_forEach_updateButton)
  then have "button_message s' b = button_message s1 b" "buttonHandles s' b \<noteq> None"
    using h1 by (rule button_message_stable)+
  with o1 ih show ?case
    unfolding run s'_def [symmetric] by simp
qed

lemma forEach_updateContent_exact:
  assumes "\<not> list_ex (\<lambda>t. tabs s t = None) ts"
  shows "outbox (snd (forEach_updateContent s ts)) =
           outbox s @ map (tab_message (snd (forEach_updateContent s ts))) ts \<and>
         (\<forall>t\<in>set ts. tabHandles (snd (forEach_updateContent s ts)) t \<noteq> None)"
  using assms
proof (induction ts arbitrary: s)
  case Nil
  show ?case by simp
next
  case (Cons t ts)
  define s1 where "s1 = snd (TabImpl_updateContent s t)"
  define s' where "s' = snd (forEach_updateContent s1 ts)"
  have t: "tabs s t \<noteq> None"
    using Cons.prems by simp
  have same: "tabs s1 = tabs s"
    using child_sync_TabImpl_updateContent [of s t] by (simp add: child_sync_def s1_def)
  have run: "forEach_updateContent s (t # ts) = forEach_updateContent s1 ts"
    using fst_TabImpl_updateContent [of s t] t
    by (cases "TabImpl_updateContent s t") (simp add: andThen_def s1_def)
  have o1: "outbox s1 = outbox s @ [tab_message s1 t]" and h1: "tabHandles s1 t \<noteq> None"
    using TabImpl_updateContent_exact [OF t] by (simp_all add: s1_def)
  have "\<not> list_ex (\<lambda>t. tabs s1 t = None) ts"
    using Cons.prems same by simp
  then have ih: "outbox s' = outbox s1 @ map (tab_message s') ts"
    "\<forall>t\<in>set ts. tabHandles s' t \<noteq> None"
    using Cons.IH [of s1] by (simp_all add: s'_def)
  have "child_sync s1 s'"
    by (simp add: s'_def child_sync_forEach_updateContent)
  then have "tab_message s' t = tab_message s1 t" "tabHandles s' t \<noteq> None"
    using h1 by (rule tab_message_stable)+
  with o1 ih show ?case
    unfolding run s'_def [symmetric] by simp
qed

lemma andThen_ok: "fst r = Inr x \<Longrightarrow> andThen r f = f x (snd r)"
  by (cases r) (simp add: andThen_def)

lemma sync_tabs_exact:
  assumes "\<not> list_ex (\<lambda>t. tabs s t = None) (tabs_of c)"
  shows "outbox (snd (sync_tabs s c)) =
           outbox s @ map (tab_message (snd (sync_tabs s c))) (tabs_of c) \<and>
         (\<forall>t\<in>set (tabs_of c). tabHandles (snd (sync_tabs s c)) t \<noteq> None)"
  using assms forEach_updateContent_exact [of s "tabs_of c"]
  by (cases c) (simp_all add: sync_tabs_def tabs_of_def)

lemma sync_customButtons_exact:
  assumes "\<not> list_ex (\<lambda>b. buttons s b = None) (custom_of cbs)"
  shows "outbox (snd (sync_customButtons s cbs)) =
           outbox s @ map (button_message (snd (sync_customButtons s cbs))) (custom_of cbs) \<and>
         (\<forall>b\<in>set (custom_of cbs). buttonHandles (snd (sync_customButtons s cbs)) b \<noteq> None)"
  using assms forEach_updateButton_exact [of s "custom_of cbs"]
  by (cases cbs) (simp_all add: sync_customButtons_def custom_of_def)

lemma sync_children_exact:
  assumes "\<not> child_missing s dlg"
  shows "outbox (snd (sync_children s dlg)) =
           outbox s @ map (tab_message (snd (sync_children s dlg))) (tabs_of (content dlg)) @
             map (button_message (snd (sync_children s dlg))) (custom_of (customButtons dlg)) @
             [button_message (snd (sync_children s dlg)) (okButton dlg),
              button_message (snd (sync_children s dlg)) (cancelButton dlg)]"
    and "\<forall>t\<in>set (tabs_of (content dlg)). tabHandles (snd (sync_children s dlg)) t \<noteq> None"
    and "\<forall>b\<in>set (okButton dlg # cancelButton dlg # custom_of (customButtons dlg)).
            buttonHandles (snd (sync_children s dlg)) b \<noteq> None"
proof -
  define s2 where "s2 = snd (sync_tabs s (content dlg))"
  define s3 where "s3 = snd (sync_customButtons s2 (customButtons dlg))"
  define s4 where "s4 = snd (updateButton s3 (okButton dlg))"
  define s5 where "s5 = snd (updateButton s4 (cancelButton dlg))"
  have cs: "child_sync s s2" "child_sync s2 s3" "child_sync s3 s4" "child_sync s4 s5"
    by (simp_all add: s2_def s3_def s4_def s5_def child_sync_sync_tabs
        child_sync_sync_customButtons child_sync_updateButton)
  then have same: "buttons s2 = buttons s" "buttons s3 = buttons s" "buttons s4 = buttons s"
    by (simp_all add: child_sync_def)
  have cs35: "child_sync s3 s5" and cs25: "child_sync s2 s5"
    using cs by (blast intro: child_sync_trans)+
  have pres: "\<not> list_ex (\<lambda>t. tabs s t = None) (tabs_of (content dlg))"
    "\<not> list_ex (\<lambda>b. buttons s2 b = None) (custom_of (customButtons dlg))"
    "buttons s3 (okButton dlg) \<noteq> None" "buttons s4 (cancelButton dlg) \<noteq> None"
    using assms by (simp_all add: child_missing_def same)
  have "fst (sync_tabs s (content dlg)) = Inr ()"
    "fst (sync_customButtons s2 (customButtons dlg)) = Inr ()"
    "fst (updateButton s3 (okButton dlg)) = Inr ()"
    using pres by (simp_all add: fst_sync_tabs fst_sync_customButtons fst_updateButton)
  then have run: "snd (sync_children s dlg) = s5"
    by (simp add: sync_children_def andThen_ok s2_def s3_def s4_def s5_def)
  have t2: "outbox s2 = outbox s @ map (tab_message s2) (tabs_of (content dlg))"
    "\<forall>t\<in>set (tabs_of (content dlg)). tabHandles s2 t \<noteq> None"
    using sync_tabs_exact [OF pres(1)] by (simp_all add: s2_def)
  have b3: "outbox s3 = outbox s2 @ map (button_message s3) (custom_of (customButtons dlg))"
    "\<forall>b\<in>set (custom_of (customButtons dlg)). buttonHandles s3 b \<noteq> None"
    using sync_customButtons_exact [OF pres(2)] by (simp_all add: s3_def)
  have b4: "outbox s4 = outbox s3 @ [button_message s4 (okButton dlg)]"
    "buttonHandles s4 (okButton dlg) \<noteq> None"
    using updateButton_exact [OF pres(3)] by (simp_all add: s4_def)
  have b5: "outbox s5 = outbox s4 @ [button_message s5 (cancelButton dlg)]"
    "buttonHandles s5 (cancelButton dlg) \<noteq> None"
    using updateButton_exact [OF pres(4)] by (simp_all add: s5_def)
  have m2: "map (tab_message s2) (tabs_of (content dlg)) = map (tab_message s5) (tabs_of (content dlg))"
    using t2(2) tab_message_stable(1) [OF cs25] by (simp cong: map_cong)
  have m3: "map (button_message s3) (custom_of (customButtons dlg))
              = map (button_message s5) (custom_of (customButtons dlg))"
    using b3(2) button_message_stable(1) [OF cs35] by (simp cong: map_cong)
  have m4: "button_message s4 (okButton dlg) = button_message s5 (okButton dlg)"
    using button_message_stable(1) [OF cs(4) b4(2)] by simp
  show "outbox (snd (sync_children s dlg)) =
           outbox s @ map (tab_message (snd (sync_children s dlg))) (tabs_of (content dlg)) @
             map (button_message (snd (sync_children s dlg))) (custom_of (customButtons dlg)) @
             [button_message (snd (sync_children s dlg)) (okButton dlg),
              button_message (snd (sync_children s dlg)) (cancelButton dlg)]"
    unfolding run by (simp add: b5(1) b4(1) b3(1) t2(1) m2 m3 m4)
  show "\<forall>t\<in>set (tabs_of (content dlg)). tabHandles (snd (sync_children s dlg)) t \<noteq> None"
    unfolding run using t2(2) tab_message_stable(2) [OF cs25] by blast
  show "\<forall>b\<in>set (okButton dlg # cancelButton dlg # custom_of (customButtons dlg)).
            buttonHandles (snd (sync_children s dlg)) b \<noteq> None"
    unfolding run
    using b3(2) button_message_stable(2) [OF cs35] button_message_stable(2) [OF cs(4) b4(2)] b5(2)
    by auto
qed

lemma getButtonHandle_known:
  "buttonHandles s b \<noteq> None \<Longrightarrow> getButtonHandle s b = (the (buttonHandles s b), s)"
  by (auto simp: getButtonHandle_def)

lemma map_getTabHandle_known:
  "\<forall>t\<in>set ts. tabHandles s t \<noteq> None \<Longrightarrow>
   map_getTabHandle s ts = (map (\<lambda>t. the (tabHandles s t)) ts, s)"
  by (induction ts) (auto simp: getTabHandle_def)

lemma map_getButtonHandle_known:
  "\<forall>b\<in>set bs. buttonHandles s b \<noteq> None \<Longrightarrow>
   map_getButtonHandle s bs = (map (\<lambda>b. the (buttonHandles s b)) bs, s)"
  by (induction bs) (auto simp: getButtonHandle_def)

lemma dialog_details_of_known:
  assumes "\<forall>t\<in>set (tabs_of (content dlg)). tabHandles s t \<noteq> None"
    and "\<forall>b\<in>set (okButton dlg # cancelButton dlg # custom_of (customButtons dlg)).
            buttonHandles s b \<noteq> None"
  shows "dialog_details_of s dlg =
     (\<lparr>dd_title = title dlg,
       dd_okButton = the (buttonHandles s (okButton dlg)),
       dd_cancelButton = the (buttonHandles s (cancelButton dlg)),
       dd_content =
          (case content dlg of
             Tabs ts \<Rightarrow> WTabs (map (\<lambda>t. the (tabHandles s t)) ts)
           | Text x \<Rightarrow> WText x
           | NoContent \<Rightarrow> WNoContent),
       dd_customButtons = map_option (map (\<lambda>b. the (buttonHandles s b))) (customButtons dlg)\<rparr>, s)"
proof -
  have ok: "getButtonHandle s (okButton dlg) = (the (buttonHandles s (okButton dlg)), s)"
    and cancel: "getButtonHandle s (cancelButton dlg) = (the (buttonHandles s (cancelButton dlg)), s)"
    using assms(2) by (simp_all add: getButtonHandle_known)
  have c: "content_details s (content dlg) =
      ((case content dlg of
             Tabs ts \<Rightarrow> WTabs (map (\<lambda>t. the (tabHandles s t)) ts)
           | Text x \<Rightarrow> WText x
           | NoContent \<Rightarrow> WNoContent), s)"
    using assms(1)
    by (cases "content dlg") (simp_all add: content_details_def tabs_of_def map_getTabHandle_known)
  have b: "customButtons_details s (customButtons dlg) =
      (map_option (map (\<lambda>b. the (buttonHandles s b))) (customButtons dlg), s)"
    using assms(2)
    by (cases "customButtons dlg")
       (simp_all add: customButtons_details_def custom_of_def map_getButtonHandle_known)
  show ?thesis
    by (simp add: dialog_details_of_def ok cancel c b)
qed

lemma message_cong:
  assumes "tabHandles s' = tabHandles s" "buttonHandles s' = buttonHandles s"
    "dialogHandles s' = dialogHandles s" "tabs s' = tabs s" "buttons s' = buttons s"
  shows "tab_message s' = tab_message s" "button_message s' = button_message s"
    "dialog_message s' = dialog_message s"
proof -
  show "tab_message s' = tab_message s"
    by (rule ext) (simp add: tab_message_def assms)
  show "button_message s' = button_message s"
    by (rule ext) (simp add: button_message_def assms)
  show "dialog_message s' = dialog_message s"
    by (intro ext) (simp add: dialog_message_def assms cong: content.case_cong)
qed

text \<open>
  C1. For a dialog whose children are all defined, \<open>open\<close> succeeds and appends to the
  channel, in this order: one setTabDetails per tab of the content, in the order of the
  sequence; one setButtonDetails per custom button, in the order of the sequence; the
  setButtonDetails of the ok button; that of the cancel button; one setDialogDetails for
  the dialog, which names the children by the handles of the messages before it; and the
  open directive with the dialog's handle. All the handles named are in the registries.
\<close>

theorem open_dialog_children_first:
  assumes "dialogs s d = Some dlg" and "\<not> child_missing s dlg"
  shows "fst (open_dialog s d) = Inr () \<and>
         outbox (snd (open_dialog s d)) =
           outbox s @
           map (tab_message (snd (open_dialog s d))) (tabs_of (content dlg)) @
           map (button_message (snd (open_dialog s d))) (custom_of (customButtons dlg)) @
           [button_message (snd (open_dialog s d)) (okButton dlg),
            button_message (snd (open_dialog s d)) (cancelButton dlg),
            dialog_message (snd (open_dialog s d)) d dlg,
            MOpen (the (dialogHandles (snd (open_dialog s d)) d))] \<and>
         dialogHandles (snd (open_dialog s d)) d \<noteq> None \<and>
         (\<forall>t\<in>set (tabs_of (content dlg)). tabHandles (snd (open_dialog s d)) t \<noteq> None) \<and>
         (\<forall>b\<in>set (okButton dlg # cancelButton dlg # custom_of (customButtons dlg)).
            buttonHandles (snd (open_dialog s d)) b \<noteq> None)"
proof -
  define h where "h = fst (getDialogHandle s d)"
  define s1 where "s1 = snd (getDialogHandle s d)"
  define s5 where "s5 = snd (sync_children s1 dlg)"
  define s6 where "s6 = send (dialog_message s5 d dlg) s5"
  define s7 where "s7 = send (MOpen h) s6"
  have g: "getDialogHandle s d = (h, s1)"
    by (simp add: h_def s1_def)
  have h1: "dialogHandles s1 d = Some h"
    by (simp add: h_def s1_def getDialogHandle_def getNewHandle_def split: option.splits)
  then have g1: "getDialogHandle s1 d = (h, s1)"
    by (simp add: getDialogHandle_def)
  have cs1: "child_sync s s1"
    using child_sync_getDialogHandle [of s d] by (simp add: s1_def)
  then have dlg: "dialogs s1 d = Some dlg" and pres: "\<not> child_missing s1 dlg"
    and out1: "outbox s1 = outbox s"
    using assms
    by (simp_all add: child_sync_def child_missing_def getDialogHandle_def getNewHandle_def
        s1_def split: option.splits)
  have cs5: "child_sync s1 s5"
    by (simp add: s5_def child_sync_sync_children)
  have h5: "dialogHandles s5 d = Some h"
    using cs5 h1 map_le_the [of "dialogHandles s1" "dialogHandles s5" d]
    by (simp add: child_sync_def)
  have ok5: "sync_children s1 dlg = (Inr (), s5)"
    using fst_sync_children [of s1 dlg] pres by (simp add: s5_def prod_eq_iff)
  have out5: "outbox s5 =
           outbox s1 @ map (tab_message s5) (tabs_of (content dlg)) @
             map (button_message s5) (custom_of (customButtons dlg)) @
             [button_message s5 (okButton dlg), button_message s5 (cancelButton dlg)]"
    and th5: "\<forall>t\<in>set (tabs_of (content dlg)). tabHandles s5 t \<noteq> None"
    and bh5: "\<forall>b\<in>set (okButton dlg # cancelButton dlg # custom_of (customButtons dlg)).
            buttonHandles s5 b \<noteq> None"
    using sync_children_exact [OF pres] by (simp_all add: s5_def)
  have dd: "SetDialogDetails h (fst (dialog_details_of s5 dlg)) = dialog_message s5 d dlg"
    "snd (dialog_details_of s5 dlg) = s5"
    using dialog_details_of_known [OF th5 bh5] h5 by (simp_all add: dialog_message_def)
  have upd: "updateDialogContent s1 d = (Inr (), s6)"
    using dd by (simp add: updateDialogContent_def g1 dlg ok5 andThen_def split_beta s6_def)
  have res: "open_dialog s d = (Inr (), s7)"
    by (simp add: open_dialog_def g upd andThen_def s7_def)
  have same: "tabHandles s7 = tabHandles s5" "buttonHandles s7 = buttonHandles s5"
    "dialogHandles s7 = dialogHandles s5" "tabs s7 = tabs s5" "buttons s7 = buttons s5"
    by (simp_all add: s7_def s6_def send_def)
  have out7: "outbox s7 = outbox s5 @ [dialog_message s5 d dlg, MOpen h]"
    by (simp add: s7_def s6_def send_def)
  show ?thesis
    unfolding res fst_conv snd_conv message_cong [OF same] same
    using out7 out5 out1 h5 th5 bh5 by simp
qed

text \<open>
  The scenario of the specification: the tab's details, the two buttons' details, the
  dialog's details, and the open directive.
\<close>

theorem open_dialog_children_first_witness:
  "dialogs scenario (Obj 0) =
     Some \<lparr>title = ''Connect'', content = Tabs [Obj 3], okButton = Obj 1, cancelButton = Obj 2,
           customButtons = None\<rparr> \<and>
   \<not> child_missing scenario
       \<lparr>title = ''Connect'', content = Tabs [Obj 3], okButton = Obj 1, cancelButton = Obj 2,
        customButtons = None\<rparr> \<and>
   fst (open_dialog scenario (Obj 0)) = Inr () \<and>
   outbox (snd (open_dialog scenario (Obj 0))) =
     outbox scenario @
       [SetTabDetails 5 \<lparr>td_title = ''General'', td_content = Some ''form''\<rparr>,
        SetButtonDetails 1 \<lparr>bd_label = Some ''Done'', bd_enabled = True\<rparr>,
        SetButtonDetails 3 \<lparr>bd_label = Some ''Cancel'', bd_enabled = True\<rparr>,
        SetDialogDetails 4
          \<lparr>dd_title = ''Connect'', dd_okButton = 1, dd_cancelButton = 3,
           dd_content = WTabs [5], dd_customButtons = None\<rparr>,
        MOpen 4]"
  using open_dialog_children_first
          [of scenario "Obj 0" "\<lparr>title = ''Connect'', content = Tabs [Obj 3], okButton = Obj 1,
                           cancelButton = Obj 2, customButtons = None\<rparr>"]
  by (simp add: scenario_defs child_missing_def tabs_of_def custom_of_def open_dialog_def
      updateDialogContent_def sync_children_def sync_tabs_def sync_customButtons_def
      TabImpl_updateContent_def updateTabContent_def dialog_details_of_def content_details_def
      customButtons_details_def tab_message_def button_message_def dialog_message_def)

end
